theory Spec2Isabelle
  imports Main "HOL-Library.Word" "HOL-Library.Sublist" "HOL-Library.AList"
begin

section \<open>Values of the program\<close>

type_synonym byte = "8 word"

text \<open>The arguments handed to \<^verbatim>\<open>fmt.Errorf\<close>; an error built by it is kept as the
  format string with its arguments, not rendered.\<close>

datatype arg = IntArg int | StrArg string

text \<open>Errors keep their origin: \<^verbatim>\<open>fmt.Errorf\<close> values are built by this program only; the
  \<^verbatim>\<open>os\<close> package returns path and link errors around an error number; the HTTP
  transport returns its own errors for a failed request and for a failed read of a body;
  the gzip reader returns its own for a bad header.\<close>

datatype errno =
  ENOENT | ENOTDIR | EISDIR | EEXIST | ENOTEMPTY | EINVAL | EBADF | EACCES | ENOSPC | EIO

datatype error =
    Errorf string "arg list"
  | PathError string string errno
  | LinkError string string string errno
  | UrlError string string
  | BodyError string
  | GzipError string

text \<open>Modelled from the spec: \<^verbatim>\<open>ChecksumInfo\<close> is declared outside the given source file.
  The spec gives it as a size (with -1 meaning "skip all verification") and three hash
  strings, each empty meaning "skip this check".\<close>

record ChecksumInfo =
  Size :: int
  MD5 :: string
  SHA1 :: string
  SHA256 :: string

type_synonym chan = nat

record downloadTask =
  url :: string
  destination :: string
  result :: chan
  expected :: ChecksumInfo

text \<open>The body of an HTTP response is read in chunks; the reads end with EOF
  (\<open>None\<close>) or with a read error.\<close>

record body =
  chunks :: "byte list list"
  read_err :: "string option"

record response =
  StatusCode :: int
  Body :: body

section \<open>Paths and the file system\<close>

text \<open>A path string is resolved component by component: empty components and \<^verbatim>\<open>.\<close>
  are skipped, and \<^verbatim>\<open>..\<close> steps to the parent, lexically as \<^verbatim>\<open>filepath.Clean\<close> does;
  this is the walk of the kernel when the directories stepped through exist. The root of
  the name space stands for the root directory, which is also the working directory;
  there are no symbolic or hard links.\<close>

type_synonym path = "string list"

definition push :: "path \<Rightarrow> string \<Rightarrow> path" where
  "push st c = (if c = [] \<or> c = ''.'' then st else if c = ''..'' then butlast st else st @ [c])"

fun walk :: "path \<Rightarrow> string \<Rightarrow> string \<Rightarrow> path" where
  "walk st cur [] = push st cur"
| "walk st cur (c # cs) =
     (if c = CHR ''/'' then walk (push st cur) [] cs else walk st (cur @ [c]) cs)"

definition resolve :: "string \<Rightarrow> path" where
  "resolve name = walk [] [] name"

text \<open>The last element of a path string (what follows the final separator), and the part
  before it. \<^verbatim>\<open>filepath.Dir\<close> returns that part cleaned; cleaning does not change what the
  string resolves to, so the model keeps the uncleaned string.\<close>

definition last_elem :: "string \<Rightarrow> string" where
  "last_elem name = rev (takeWhile (\<lambda>c. c \<noteq> CHR ''/'') (rev name))"

definition filepath_Dir :: "string \<Rightarrow> string" where
  "filepath_Dir name = rev (dropWhile (\<lambda>c. c \<noteq> CHR ''/'') (rev name))"

definition filepath_Join :: "string \<Rightarrow> string \<Rightarrow> string" where
  "filepath_Join dir name = dir @ ''/'' @ name"

text \<open>A name whose last element is empty, \<^verbatim>\<open>.\<close> or \<^verbatim>\<open>..\<close> can only name a directory.\<close>

definition dirlike :: "string \<Rightarrow> bool" where
  "dirlike name = (last_elem name = [] \<or> last_elem name = ''.'' \<or> last_elem name = ''..'')"

datatype node = File "byte list" | Directory

type_synonym filesystem = "(path \<times> node) list"

definition lookup :: "filesystem \<Rightarrow> path \<Rightarrow> node option" where
  "lookup fs p = (if p = [] then Some Directory else map_of fs p)"

text \<open>The system calls that can fail for a reason outside the model (permissions, a full
  disk, an I/O error): the environment may inject an error into each of them.\<close>

datatype syscall =
    SysMkdirAll string
  | SysMkdir string
  | SysCreate string
  | SysWrite string nat
  | SysRename string string
  | SysOpen string

text \<open>Everything the program depends on and does not define: the HTTP transport, the
  hash functions behind the checksum writer, the gzip header check, the temporary
  directory of the process and the random suffixes of temporary names, and the injected
  system call failures.\<close>

record env =
  http_Get :: "string \<Rightarrow> string + response"
  fault :: "syscall \<Rightarrow> errno option"
  md5sum :: "byte list \<Rightarrow> string"
  sha1sum :: "byte list \<Rightarrow> string"
  sha256sum :: "byte list \<Rightarrow> string"
  gzip_header :: "byte list \<Rightarrow> string option"
  os_TempDir :: string
  nextSuffix :: "nat \<Rightarrow> string"

fun mkdirs :: "string \<Rightarrow> path list \<Rightarrow> filesystem \<Rightarrow> error + filesystem" where
  "mkdirs name [] fs = Inr fs"
| "mkdirs name (q # qs) fs =
     (case lookup fs q of
        Some (File _) \<Rightarrow> Inl (PathError ''mkdir'' name ENOTDIR)
      | Some Directory \<Rightarrow> mkdirs name qs fs
      | None \<Rightarrow> mkdirs name qs (AList.update q Directory fs))"

definition os_MkdirAll :: "env \<Rightarrow> string \<Rightarrow> filesystem \<Rightarrow> error + filesystem" where
  "os_MkdirAll e name fs =
     (case fault e (SysMkdirAll name) of
        Some no \<Rightarrow> Inl (PathError ''mkdir'' name no)
      | None \<Rightarrow> mkdirs name (prefixes (resolve name)) fs)"

definition os_Mkdir :: "env \<Rightarrow> string \<Rightarrow> filesystem \<Rightarrow> error + filesystem" where
  "os_Mkdir e name fs =
     (case fault e (SysMkdir name) of
        Some no \<Rightarrow> Inl (PathError ''mkdir'' name no)
      | None \<Rightarrow>
          (case lookup fs (resolve name) of
             Some _ \<Rightarrow> Inl (PathError ''mkdir'' name EEXIST)
           | None \<Rightarrow>
               (case lookup fs (butlast (resolve name)) of
                  None \<Rightarrow> Inl (PathError ''mkdir'' name ENOENT)
                | Some (File _) \<Rightarrow> Inl (PathError ''mkdir'' name ENOTDIR)
                | Some Directory \<Rightarrow> Inr (AList.update (resolve name) Directory fs))))"

definition os_Create :: "env \<Rightarrow> string \<Rightarrow> filesystem \<Rightarrow> error + filesystem" where
  "os_Create e name fs =
     (case fault e (SysCreate name) of
        Some no \<Rightarrow> Inl (PathError ''open'' name no)
      | None \<Rightarrow>
          if dirlike name then Inl (PathError ''open'' name EISDIR)
          else
            (case lookup fs (butlast (resolve name)) of
               None \<Rightarrow> Inl (PathError ''open'' name ENOENT)
             | Some (File _) \<Rightarrow> Inl (PathError ''open'' name ENOTDIR)
             | Some Directory \<Rightarrow>
                 (case lookup fs (resolve name) of
                    Some Directory \<Rightarrow> Inl (PathError ''open'' name EISDIR)
                  | _ \<Rightarrow> Inr (AList.update (resolve name) (File []) fs))))"

text \<open>A write through the handle of \<open>name\<close> appends to the file; a failing write writes
  nothing.\<close>

definition file_Write :: "env \<Rightarrow> string \<Rightarrow> byte list \<Rightarrow> filesystem \<Rightarrow> error option \<times> filesystem" where
  "file_Write e name b fs =
     (case lookup fs (resolve name) of
        Some (File content) \<Rightarrow>
          (case fault e (SysWrite name (length content)) of
             Some no \<Rightarrow> (Some (PathError ''write'' name no), fs)
           | None \<Rightarrow> (None, AList.update (resolve name) (File (content @ b)) fs))
      | _ \<Rightarrow> (Some (PathError ''write'' name EBADF), fs))"

text \<open>\<^verbatim>\<open>os.Remove\<close> removes a file or an empty directory. Its error is ignored by every
  caller in this program, so only the resulting file system is returned. Removing an
  entry that exists and may be removed always succeeds.\<close>

definition has_children :: "filesystem \<Rightarrow> path \<Rightarrow> bool" where
  "has_children fs p = list_ex (\<lambda>(q, n). strict_prefix p q) fs"

definition os_Remove :: "string \<Rightarrow> filesystem \<Rightarrow> filesystem" where
  "os_Remove name fs =
     (case lookup fs (resolve name) of
        Some (File _) \<Rightarrow> if dirlike name then fs else AList.delete (resolve name) fs
      | Some Directory \<Rightarrow>
          if resolve name = [] \<or> has_children fs (resolve name) then fs
          else AList.delete (resolve name) fs
      | None \<Rightarrow> fs)"

definition os_RemoveAll :: "string \<Rightarrow> filesystem \<Rightarrow> filesystem" where
  "os_RemoveAll name fs = filter (\<lambda>(q, n). \<not> prefix (resolve name) q) fs"

text \<open>\<^verbatim>\<open>os.Rename\<close> refuses a new name that is an existing directory; otherwise the entry
  moves, replacing a file at the new name. Only files are moved by this program; a
  directory moves with everything below it.\<close>

definition move_tree :: "path \<Rightarrow> path \<Rightarrow> filesystem \<Rightarrow> filesystem" where
  "move_tree old new fs =
     map (\<lambda>(q, n). if prefix old q then (new @ drop (length old) q, n) else (q, n)) fs"

definition os_Rename :: "env \<Rightarrow> string \<Rightarrow> string \<Rightarrow> filesystem \<Rightarrow> error + filesystem" where
  "os_Rename e old new fs =
     (case fault e (SysRename old new) of
        Some no \<Rightarrow> Inl (LinkError ''rename'' old new no)
      | None \<Rightarrow>
          if lookup fs (resolve new) = Some Directory then Inl (LinkError ''rename'' old new EEXIST)
          else
            (case lookup fs (resolve old) of
               None \<Rightarrow> Inl (LinkError ''rename'' old new ENOENT)
             | Some (File content) \<Rightarrow>
                 if dirlike old \<or> dirlike new then Inl (LinkError ''rename'' old new ENOTDIR)
                 else
                   (case lookup fs (butlast (resolve new)) of
                      None \<Rightarrow> Inl (LinkError ''rename'' old new ENOENT)
                    | Some (File _) \<Rightarrow> Inl (LinkError ''rename'' old new ENOTDIR)
                    | Some Directory \<Rightarrow>
                        Inr (AList.update (resolve new) (File content)
                               (AList.delete (resolve old) fs)))
             | Some Directory \<Rightarrow>
                 if resolve old = [] \<or> prefix (resolve old) (resolve new)
                 then Inl (LinkError ''rename'' old new EINVAL)
                 else if lookup fs (resolve new) \<noteq> None
                 then Inl (LinkError ''rename'' old new ENOTDIR)
                 else
                   (case lookup fs (butlast (resolve new)) of
                      None \<Rightarrow> Inl (LinkError ''rename'' old new ENOENT)
                    | Some (File _) \<Rightarrow> Inl (LinkError ''rename'' old new ENOTDIR)
                    | Some Directory \<Rightarrow> Inr (move_tree (resolve old) (resolve new) fs))))"

text \<open>An open file is its node: what was read through the handle stays readable after
  the name is unlinked.\<close>

definition os_Open :: "env \<Rightarrow> string \<Rightarrow> filesystem \<Rightarrow> error + node" where
  "os_Open e name fs =
     (case fault e (SysOpen name) of
        Some no \<Rightarrow> Inl (PathError ''open'' name no)
      | None \<Rightarrow>
          (case lookup fs (resolve name) of
             None \<Rightarrow> Inl (PathError ''open'' name ENOENT)
           | Some (File content) \<Rightarrow>
               if dirlike name then Inl (PathError ''open'' name ENOTDIR) else Inr (File content)
           | Some Directory \<Rightarrow> Inr Directory))"

section \<open>Temporary directories\<close>

text \<open>\<^verbatim>\<open>ioutil.TempDir\<close> tries up to 10000 names \<open>prefix + suffix\<close> in \<open>dir\<close> and
  keeps the first one it can create; a name that exists is skipped, any other failure
  ends the search.\<close>

fun IsExist :: "error \<Rightarrow> bool" where
  "IsExist (PathError _ _ EEXIST) = True"
| "IsExist (LinkError _ _ _ EEXIST) = True"
| "IsExist _ = False"

fun tempdir_try :: "env \<Rightarrow> string \<Rightarrow> string \<Rightarrow> nat \<Rightarrow> nat \<Rightarrow> filesystem \<Rightarrow> error + (string \<times> filesystem)" where
  "tempdir_try e dir pfx i 0 fs = Inl (PathError ''mkdir'' dir EEXIST)"
| "tempdir_try e dir pfx i (Suc n) fs =
     (case os_Mkdir e (filepath_Join dir (pfx @ nextSuffix e i)) fs of
        Inr fs' \<Rightarrow> Inr (filepath_Join dir (pfx @ nextSuffix e i), fs')
      | Inl err \<Rightarrow> if IsExist err then tempdir_try e dir pfx (Suc i) n fs else Inl err)"

definition ioutil_TempDir :: "env \<Rightarrow> string \<Rightarrow> string \<Rightarrow> filesystem \<Rightarrow> error + (string \<times> filesystem)" where
  "ioutil_TempDir e dir pfx fs = tempdir_try e dir pfx 0 10000 fs"

section \<open>The world a task runs in\<close>

text \<open>The file system, the channels (each with the values sent on it and not yet
  received), the lines printed, and the URLs requested so far.\<close>

record world =
  files :: filesystem
  chans :: "chan \<Rightarrow> error option list"
  nchans :: nat
  stdout :: "string list"
  requests :: "string list"

text \<open>A send on a result channel goes through: the caller keeps the channel ready to
  receive, as the program asks of it (a send nobody receives would block the worker).\<close>

definition send :: "chan \<Rightarrow> error option \<Rightarrow> world \<Rightarrow> world" where
  "send c v w = w\<lparr>chans := (chans w)(c := chans w c @ [v])\<rparr>"

definition make_chan :: "world \<Rightarrow> chan \<times> world" where
  "make_chan w = (nchans w, w\<lparr>chans := (chans w)(nchans w := []), nchans := Suc (nchans w)\<rparr>)"

text \<open>A receive on an empty channel blocks: \<open>None\<close>.\<close>

definition recv :: "chan \<Rightarrow> world \<Rightarrow> (error option \<times> world) option" where
  "recv c w =
     (case chans w c of
        [] \<Rightarrow> None
      | v # vs \<Rightarrow> Some (v, w\<lparr>chans := (chans w)(c := vs)\<rparr>))"

definition Printf :: "string \<Rightarrow> world \<Rightarrow> world" where
  "Printf line w = w\<lparr>stdout := stdout w @ [line]\<rparr>"

section \<open>The checksum writer\<close>

text \<open>Modelled from the spec: \<^verbatim>\<open>NewChecksumWriter\<close>, its \<^verbatim>\<open>Write\<close> and \<^verbatim>\<open>Sum\<close> are declared
  outside the given source file. The spec gives it as an incremental hasher with a write
  interface and a finalize operation producing the byte count and the MD5, SHA1 and
  SHA256 of what was written. Its state is the bytes it received.\<close>

type_synonym ChecksumWriter = "byte list"

definition NewChecksumWriter :: ChecksumWriter where
  "NewChecksumWriter = []"

definition Sum :: "env \<Rightarrow> ChecksumWriter \<Rightarrow> ChecksumInfo" where
  "Sum e cw = \<lparr>Size = int (length cw), MD5 = md5sum e cw, SHA1 = sha1sum e cw, SHA256 = sha256sum e cw\<rparr>"

section \<open>Writers and \<^verbatim>\<open>io.Copy\<close>\<close>

datatype writer = OutFile string | Checksummer | MultiWriter "writer list"

type_synonym iostate = "filesystem \<times> ChecksumWriter"

text \<open>\<^verbatim>\<open>io.MultiWriter\<close> hands each write to its writers in order and stops at the first
  that fails.\<close>

fun Write :: "env \<Rightarrow> writer \<Rightarrow> byte list \<Rightarrow> iostate \<Rightarrow> error option \<times> iostate"
  and WriteEach :: "env \<Rightarrow> writer list \<Rightarrow> byte list \<Rightarrow> iostate \<Rightarrow> error option \<times> iostate" where
  "Write e (OutFile name) b s =
     (case file_Write e name b (fst s) of (r, fs') \<Rightarrow> (r, (fs', snd s)))"
| "Write e Checksummer b s = (None, (fst s, snd s @ b))"
| "Write e (MultiWriter ws) b s = WriteEach e ws b s"
| "WriteEach e [] b s = (None, s)"
| "WriteEach e (x # xs) b s =
     (case Write e x b s of
        (Some err, s') \<Rightarrow> (Some err, s')
      | (None, s') \<Rightarrow> WriteEach e xs b s')"

text \<open>\<^verbatim>\<open>io.Copy\<close> writes each chunk it reads; it stops at the first failing write, and
  otherwise ends with the error of the last read, if any.\<close>

fun io_Copy :: "env \<Rightarrow> writer \<Rightarrow> byte list list \<Rightarrow> string option \<Rightarrow> iostate \<Rightarrow> error option \<times> iostate" where
  "io_Copy e wr [] fin s = (map_option BodyError fin, s)"
| "io_Copy e wr (b # bs) fin s =
     (if b = [] then io_Copy e wr bs fin s
      else
        (case Write e wr b s of
           (Some err, s') \<Rightarrow> (Some err, s')
         | (None, s') \<Rightarrow> io_Copy e wr bs fin s'))"

section \<open>The per-task protocol\<close>

text \<open>Lines 152 to 160 of the source: the comparisons of the actual checksums with the
  expected ones.\<close>

definition mismatch :: "string \<Rightarrow> ChecksumInfo \<Rightarrow> ChecksumInfo \<Rightarrow> error option" where
  "mismatch u actual want =
     (if Size actual \<noteq> Size want then
        Some (Errorf ''%s: size check mismatch %d != %d'' [StrArg u, IntArg (Size actual), IntArg (Size want)])
      else if MD5 want \<noteq> [] \<and> MD5 actual \<noteq> MD5 want then
        Some (Errorf ''%s: md5 hash mismatch %#v != %#v'' [StrArg u, StrArg (MD5 actual), StrArg (MD5 want)])
      else if SHA1 want \<noteq> [] \<and> SHA1 actual \<noteq> SHA1 want then
        Some (Errorf ''%s: sha1 hash mismatch %#v != %#v'' [StrArg u, StrArg (SHA1 actual), StrArg (SHA1 want)])
      else if SHA256 want \<noteq> [] \<and> SHA256 actual \<noteq> SHA256 want then
        Some (Errorf ''%s: sha256 hash mismatch %#v != %#v'' [StrArg u, StrArg (SHA256 actual), StrArg (SHA256 want)])
      else None)"

text \<open>Lines 103 to 105: the line printed, and the request issued.\<close>

definition started :: "downloadTask \<Rightarrow> world \<Rightarrow> world" where
  "started task w =
     (Printf (''Downloading '' @ url task @ ''...'' @ [CHR 0x0A]) w)
       \<lparr>requests := requests w @ [url task]\<rparr>"

text \<open>\<^verbatim>\<open>handleTask\<close>, with the checksum writer of line 134 returned beside the world (a
  fresh one on the paths that return before that line). The deferred closes of the
  response body and of the file have no effect in this model. Each
  \<^verbatim>\<open>task.result <- err\<close> of the source is a \<open>send\<close> here.\<close>

definition handleTask_run :: "env \<Rightarrow> downloadTask \<Rightarrow> world \<Rightarrow> world \<times> ChecksumWriter" where
  "handleTask_run e task w0 =
     (let w = started task w0 in
      case http_Get e (url task) of
        Inl reason \<Rightarrow>
          (send (result task) (Some (UrlError (url task) reason)) w, NewChecksumWriter)
      | Inr resp \<Rightarrow>
          if StatusCode resp < 200 \<or> StatusCode resp > 299 then
            (send (result task)
               (Some (Errorf ''HTTP code %d while fetching %s''
                        [IntArg (StatusCode resp), StrArg (url task)])) w,
             NewChecksumWriter)
          else
            (case os_MkdirAll e (filepath_Dir (destination task)) (files w) of
               Inl err \<Rightarrow> (send (result task) (Some err) w, NewChecksumWriter)
             | Inr fs1 \<Rightarrow>
                 let temppath = destination task @ ''.down'' in
                 (case os_Create e temppath fs1 of
                    Inl err \<Rightarrow> (send (result task) (Some err) (w\<lparr>files := fs1\<rparr>), NewChecksumWriter)
                  | Inr fs2 \<Rightarrow>
                      let wr = (if Size (expected task) \<noteq> - 1
                                then MultiWriter [OutFile temppath, Checksummer]
                                else OutFile temppath)
                      in
                      (case io_Copy e wr (chunks (Body resp)) (read_err (Body resp))
                              (fs2, NewChecksumWriter) of
                         (Some err, (fs3, checksummer)) \<Rightarrow>
                           (send (result task) (Some err) (w\<lparr>files := os_Remove temppath fs3\<rparr>),
                            checksummer)
                       | (None, (fs3, checksummer)) \<Rightarrow>
                           (case (if Size (expected task) \<noteq> - 1
                                  then mismatch (url task) (Sum e checksummer) (expected task)
                                  else None) of
                              Some err \<Rightarrow>
                                (send (result task) (Some err)
                                   (w\<lparr>files := os_Remove temppath fs3\<rparr>), checksummer)
                            | None \<Rightarrow>
                                (case os_Rename e temppath (destination task) fs3 of
                                   Inl err \<Rightarrow>
                                     (send (result task) (Some err)
                                        (w\<lparr>files := os_Remove temppath fs3\<rparr>), checksummer)
                                 | Inr fs4 \<Rightarrow>
                                     (send (result task) None (w\<lparr>files := fs4\<rparr>),
                                      checksummer)))))))"

definition handleTask :: "env \<Rightarrow> downloadTask \<Rightarrow> world \<Rightarrow> world" where
  "handleTask e task w = fst (handleTask_run e task w)"

text \<open>How far a task gets: the response when the GET succeeds with a status in
  200..299; the file system after the parent directory step (line 121), after the
  temporary file is created (line 129), and the file system with the checksum writer
  when the copy has ended without error (line 147).\<close>

definition response_ok :: "env \<Rightarrow> downloadTask \<Rightarrow> response option" where
  "response_ok e task =
     (case http_Get e (url task) of
        Inl _ \<Rightarrow> None
      | Inr resp \<Rightarrow> if StatusCode resp < 200 \<or> StatusCode resp > 299 then None else Some resp)"

definition made_dirs :: "env \<Rightarrow> downloadTask \<Rightarrow> world \<Rightarrow> filesystem option" where
  "made_dirs e task w =
     (case response_ok e task of
        None \<Rightarrow> None
      | Some resp \<Rightarrow>
          (case os_MkdirAll e (filepath_Dir (destination task)) (files w) of
             Inl _ \<Rightarrow> None
           | Inr fs1 \<Rightarrow> Some fs1))"

definition created :: "env \<Rightarrow> downloadTask \<Rightarrow> world \<Rightarrow> filesystem option" where
  "created e task w =
     (case made_dirs e task w of
        None \<Rightarrow> None
      | Some fs1 \<Rightarrow>
          (case os_Create e (destination task @ ''.down'') fs1 of
             Inl _ \<Rightarrow> None
           | Inr fs2 \<Rightarrow> Some fs2))"

definition copied :: "env \<Rightarrow> downloadTask \<Rightarrow> world \<Rightarrow> iostate option" where
  "copied e task w =
     (case (response_ok e task, created e task w) of
        (Some resp, Some fs2) \<Rightarrow>
          (case io_Copy e
                  (if Size (expected task) \<noteq> - 1
                   then MultiWriter [OutFile (destination task @ ''.down''), Checksummer]
                   else OutFile (destination task @ ''.down''))
                  (chunks (Body resp)) (read_err (Body resp)) (fs2, NewChecksumWriter) of
             (Some _, _) \<Rightarrow> None
           | (None, s) \<Rightarrow> Some s)
      | _ \<Rightarrow> None)"

section \<open>The engine\<close>

text \<open>The queue is a channel buffered for 1000 tasks: a send on a full queue blocks
  (\<open>None\<close>).\<close>

record downloaderImpl =
  queue :: "downloadTask list"
  threads :: int

definition DownloadWithChecksum ::
  "'a downloaderImpl_scheme \<Rightarrow> string \<Rightarrow> string \<Rightarrow> chan \<Rightarrow> ChecksumInfo \<Rightarrow>
   'a downloaderImpl_scheme option" where
  "DownloadWithChecksum d u dst res want =
     (if length (queue d) < 1000
      then Some (d\<lparr>queue := queue d @ [\<lparr>url = u, destination = dst, result = res, expected = want\<rparr>]\<rparr>)
      else None)"

definition Download ::
  "'a downloaderImpl_scheme \<Rightarrow> string \<Rightarrow> string \<Rightarrow> chan \<Rightarrow> 'a downloaderImpl_scheme option" where
  "Download d u dst res =
     DownloadWithChecksum d u dst res \<lparr>Size = - 1, MD5 = [], SHA1 = [], SHA256 = []\<rparr>"

text \<open>The \<^verbatim>\<open>Downloader\<close> interface as its callers in this file see it: what a call of
  \<^verbatim>\<open>Download\<close> has done to the world by the time the caller receives from the result
  channel.\<close>

type_synonym Downloader = "string \<Rightarrow> string \<Rightarrow> chan \<Rightarrow> world \<Rightarrow> world"

text \<open>The implementation with an idle engine: the task is queued by \<^verbatim>\<open>Download\<close>, and a
  worker at its \<^verbatim>\<open>select\<close> takes each queued task and hands it to \<^verbatim>\<open>handleTask\<close>.\<close>

definition serve :: "env \<Rightarrow> Downloader" where
  "serve e u dst res w =
     (case Download (\<lparr>queue = [], threads = 1\<rparr> :: downloaderImpl) u dst res of
        None \<Rightarrow> w
      | Some d \<Rightarrow> foldl (\<lambda>w' task. handleTask e task w') w (queue d))"

section \<open>Downloads to a temporary file\<close>

definition DownloadTemp :: "env \<Rightarrow> Downloader \<Rightarrow> string \<Rightarrow> world \<Rightarrow> ((error + node) \<times> world) option" where
  "DownloadTemp e downloader u w =
     (case ioutil_TempDir e (os_TempDir e) ''aptly'' (files w) of
        Inl err \<Rightarrow> Some (Inl err, w)
      | Inr (tempdir, fs1) \<Rightarrow>
          let tempfile = filepath_Join tempdir ''buffer'' in
          (case make_chan (w\<lparr>files := fs1\<rparr>) of
             (ch, w1) \<Rightarrow>
               (case recv ch (downloader u tempfile ch w1) of
                  None \<Rightarrow> None
                | Some (Some err, w3) \<Rightarrow>
                    Some (Inl err, w3\<lparr>files := os_RemoveAll tempdir (files w3)\<rparr>)
                | Some (None, w3) \<Rightarrow>
                    (case os_Open e tempfile (files w3) of
                       Inl err \<Rightarrow> Some (Inl err, w3\<lparr>files := os_RemoveAll tempdir (files w3)\<rparr>)
                     | Inr file \<Rightarrow>
                         Some (Inr file, w3\<lparr>files := os_RemoveAll tempdir (files w3)\<rparr>)))))"

section \<open>Trying the compressed variants\<close>

text \<open>A reader is the decoder put around an open file. \<^verbatim>\<open>bzip2.NewReader\<close> and the
  pass-through never fail; \<^verbatim>\<open>gzip.NewReader\<close> reads the header first and fails on a bad
  one.\<close>

datatype reader = Bzip2Reader node | GzipReader node | FileReader node

definition gzip_NewReader :: "env \<Rightarrow> node \<Rightarrow> error + reader" where
  "gzip_NewReader e r =
     (case r of
        Directory \<Rightarrow> Inl (PathError ''read'' [] EISDIR)
      | File content \<Rightarrow>
          (case gzip_header e content of
             Some reason \<Rightarrow> Inl (GzipError reason)
           | None \<Rightarrow> Inr (GzipReader r)))"

definition compressionMethods :: "(string \<times> (env \<Rightarrow> node \<Rightarrow> error + reader)) list" where
  "compressionMethods =
     [(''.bz2'', \<lambda>e r. Inr (Bzip2Reader r)),
      (''.gz'', \<lambda>e r. gzip_NewReader e r),
      ([], \<lambda>e r. Inr (FileReader r))]"

text \<open>The loop of \<^verbatim>\<open>DownloadTryCompression\<close> over the methods left, with the \<open>err\<close>
  variable of the source. The result is the triple the source returns.\<close>

fun try_methods ::
  "env \<Rightarrow> Downloader \<Rightarrow> string \<Rightarrow> (string \<times> (env \<Rightarrow> node \<Rightarrow> error + reader)) list \<Rightarrow>
   error option \<Rightarrow> world \<Rightarrow> ((reader option \<times> node option \<times> error option) \<times> world) option" where
  "try_methods e downloader u [] err w = Some ((None, None, err), w)"
| "try_methods e downloader u (method # rest) err w =
     (case DownloadTemp e downloader (u @ fst method) w of
        None \<Rightarrow> None
      | Some (Inl err', w') \<Rightarrow> try_methods e downloader u rest (Some err') w'
      | Some (Inr file, w') \<Rightarrow>
          (case snd method e file of
             Inl err' \<Rightarrow> try_methods e downloader u rest (Some err') w'
           | Inr uncompressed \<Rightarrow> Some ((Some uncompressed, Some file, None), w')))"

definition DownloadTryCompression ::
  "env \<Rightarrow> Downloader \<Rightarrow> string \<Rightarrow> world \<Rightarrow>
   ((reader option \<times> node option \<times> error option) \<times> world) option" where
  "DownloadTryCompression e downloader u w = try_methods e downloader u compressionMethods None w"

section \<open>The worker pool\<close>

text \<open>Where a worker's \<^verbatim>\<open>process\<close> loop stands: at its \<^verbatim>\<open>select\<close> (line 182), inside
  \<^verbatim>\<open>handleTask\<close> (line 189), waiting for \<^verbatim>\<open>unpause\<close> (line 187), at the send on
  \<^verbatim>\<open>stopped\<close> (line 184), or returned (line 185). Where a call of \<^verbatim>\<open>Shutdown\<close> stands: not
  made yet, in the first loop about to send stop token number \<open>i\<close> (line 69), in the second
  loop about to receive acknowledgment number \<open>j\<close> (line 73), or returned.\<close>

datatype worker = AtSelect | Handling downloadTask | Paused | Stopping | Returned

datatype caller = NotCalled | SendingStop nat | AwaitingStopped nat | Finished

record pool = downloaderImpl +
  workers :: "worker list"
  shutdown :: caller
  now :: world

text \<open>\<^verbatim>\<open>NewDownloader\<close> starts one worker per thread, each at its \<^verbatim>\<open>select\<close>.\<close>

definition NewDownloader :: "int \<Rightarrow> world \<Rightarrow> pool" where
  "NewDownloader n w =
     \<lparr>queue = [], threads = n, workers = replicate (nat n) AtSelect, shutdown = NotCalled, now = w\<rparr>"

text \<open>The steps of the pool. The channels \<^verbatim>\<open>stop\<close>, \<^verbatim>\<open>stopped\<close>, \<^verbatim>\<open>pause\<close> and \<^verbatim>\<open>unpause\<close> are
  unbuffered: a send and its receive are one step, taken when both sides stand at it. A
  worker receives only at its \<^verbatim>\<open>select\<close>, except for \<^verbatim>\<open>unpause\<close>. Pause and unpause tokens
  may be offered at any time by callers of \<^verbatim>\<open>Pause\<close> and \<^verbatim>\<open>Resume\<close>; tasks may be submitted at
  any time. A worker is inside \<^verbatim>\<open>handleTask\<close> from the step that takes the task off the queue
  to the step that ends it; the effect of the task on the world is that of an undisturbed
  run and takes place at the latter step.\<close>

datatype event =
    Submit string string chan ChecksumInfo
  | Take nat
  | Handled nat
  | PauseAt nat
  | UnpauseAt nat
  | Call
  | StopAt nat
  | StopsSent
  | AckFrom nat
  | Return

fun fire :: "env \<Rightarrow> event \<Rightarrow> pool \<Rightarrow> pool option" where
  "fire e (Submit u dst res want) s = DownloadWithChecksum s u dst res want"
| "fire e (Take k) s =
     (if k < length (workers s) \<and> workers s ! k = AtSelect
      then (case queue s of
              [] \<Rightarrow> None
            | task # rest \<Rightarrow> Some (s\<lparr>queue := rest, workers := (workers s)[k := Handling task]\<rparr>))
      else None)"
| "fire e (Handled k) s =
     (if k < length (workers s)
      then (case workers s ! k of
              Handling task \<Rightarrow>
                Some (s\<lparr>workers := (workers s)[k := AtSelect], now := handleTask e task (now s)\<rparr>)
            | _ \<Rightarrow> None)
      else None)"
| "fire e (PauseAt k) s =
     (if k < length (workers s) \<and> workers s ! k = AtSelect
      then Some (s\<lparr>workers := (workers s)[k := Paused]\<rparr>) else None)"
| "fire e (UnpauseAt k) s =
     (if k < length (workers s) \<and> workers s ! k = Paused
      then Some (s\<lparr>workers := (workers s)[k := AtSelect]\<rparr>) else None)"
| "fire e Call s =
     (if shutdown s = NotCalled then Some (s\<lparr>shutdown := SendingStop 0\<rparr>) else None)"
| "fire e (StopAt k) s =
     (case shutdown s of
        SendingStop i \<Rightarrow>
          if int i < threads s \<and> k < length (workers s) \<and> workers s ! k = AtSelect
          then Some (s\<lparr>workers := (workers s)[k := Stopping], shutdown := SendingStop (Suc i)\<rparr>)
          else None
      | _ \<Rightarrow> None)"
| "fire e StopsSent s =
     (case shutdown s of
        SendingStop i \<Rightarrow>
          if int i < threads s then None else Some (s\<lparr>shutdown := AwaitingStopped 0\<rparr>)
      | _ \<Rightarrow> None)"
| "fire e (AckFrom k) s =
     (case shutdown s of
        AwaitingStopped j \<Rightarrow>
          if int j < threads s \<and> k < length (workers s) \<and> workers s ! k = Stopping
          then Some (s\<lparr>workers := (workers s)[k := Returned], shutdown := AwaitingStopped (Suc j)\<rparr>)
          else None
      | _ \<Rightarrow> None)"
| "fire e Return s =
     (case shutdown s of
        AwaitingStopped j \<Rightarrow>
          if int j < threads s then None else Some (s\<lparr>shutdown := Finished\<rparr>)
      | _ \<Rightarrow> None)"

text \<open>A schedule is a list of events; it runs as far as each event is enabled.\<close>

fun run :: "env \<Rightarrow> event list \<Rightarrow> pool \<Rightarrow> pool option" where
  "run e [] s = Some s"
| "run e (ev # evs) s = (case fire e ev s of None \<Rightarrow> None | Some s' \<Rightarrow> run e evs s')"

text \<open>The events that are steps of \<^verbatim>\<open>Shutdown\<close>.\<close>

fun of_Shutdown :: "event \<Rightarrow> bool" where
  "of_Shutdown Call = True"
| "of_Shutdown (StopAt k) = True"
| "of_Shutdown StopsSent = True"
| "of_Shutdown (AckFrom k) = True"
| "of_Shutdown Return = True"
| "of_Shutdown _ = False"

text \<open>The invariant of the pool: the workers that have taken a stop token and not yet
  acknowledged it (\<open>cs\<close>), and those that have acknowledged it (\<open>cr\<close>), are counted by
  the loops of \<^verbatim>\<open>Shutdown\<close>; \<open>n\<close> is the number of workers.\<close>

fun counts_ok :: "caller \<Rightarrow> nat \<Rightarrow> nat \<Rightarrow> nat \<Rightarrow> bool" where
  "counts_ok NotCalled cs cr n = (cs = 0 \<and> cr = 0)"
| "counts_ok (SendingStop i) cs cr n = (cs = i \<and> cr = 0)"
| "counts_ok (AwaitingStopped j) cs cr n = (cr = j \<and> cs + j = n)"
| "counts_ok Finished cs cr n = (cs = 0 \<and> cr = n)"

definition pool_inv :: "pool \<Rightarrow> bool" where
  "pool_inv s =
     (length (workers s) = nat (threads s) \<and>
      counts_ok (shutdown s) (count_list (workers s) Stopping) (count_list (workers s) Returned)
        (nat (threads s)))"

section \<open>A concrete environment\<close>

text \<open>A small repository server, a file system holding only \<^verbatim>\<open>/tmp\<close>, toy digests and no
  injected failures: the inputs at which the theorems below are instantiated.\<close>

definition demo_env :: env where
  "demo_env =
     \<lparr>http_Get = (\<lambda>u.
        if u = ''http://repo/Packages''
        then Inr \<lparr>StatusCode = 200, Body = \<lparr>chunks = [[1, 2], [3]], read_err = None\<rparr>\<rparr>
        else if u = ''http://repo/Packages.gz''
        then Inr \<lparr>StatusCode = 200, Body = \<lparr>chunks = [[0x1F, 0x8B, 8]], read_err = None\<rparr>\<rparr>
        else if u = ''http://repo/gone''
        then Inr \<lparr>StatusCode = 404, Body = \<lparr>chunks = [[4, 0, 4]], read_err = None\<rparr>\<rparr>
        else if u = ''http://repo/cut''
        then Inr \<lparr>StatusCode = 200, Body = \<lparr>chunks = [[1]], read_err = Some ''connection reset''\<rparr>\<rparr>
        else Inl ''no such host''),
      fault = (\<lambda>c. None),
      md5sum = (\<lambda>b. if b = [1, 2, 3] then ''5289df73'' else ''d41d8cd9''),
      sha1sum = (\<lambda>b. if b = [1, 2, 3] then ''7037807198'' else ''da39a3ee5e''),
      sha256sum = (\<lambda>b. if b = [1, 2, 3] then ''039058c6f2c0'' else ''e3b0c44298fc''),
      gzip_header = (\<lambda>b. if take 2 b = [0x1F, 0x8B] then None else Some ''gzip: invalid header''),
      os_TempDir = ''/tmp'',
      nextSuffix = (\<lambda>i. ''391827465'')\<rparr>"

definition demo_world :: world where
  "demo_world =
     \<lparr>files = [([''tmp''], Directory)], chans = (\<lambda>c. []), nchans = 0, stdout = [], requests = []\<rparr>"

definition demo_task :: "string \<Rightarrow> string \<Rightarrow> ChecksumInfo \<Rightarrow> downloadTask" where
  "demo_task u dst want = \<lparr>url = u, destination = dst, result = 0, expected = want\<rparr>"

section \<open>Path strings\<close>

lemma walk_noslash: "CHR ''/'' \<notin> set xs \<Longrightarrow> walk st cur (xs @ ys) = walk st (cur @ xs) ys"
  by (induction xs arbitrary: cur) auto

lemma walk_slash: "walk st cur (xs @ CHR ''/'' # ys) = walk (walk st cur xs) [] ys"
  by (induction xs arbitrary: st cur) auto

lemma dir_last: "filepath_Dir name @ last_elem name = name"
  unfolding filepath_Dir_def last_elem_def
  by (metis rev_append rev_rev_ident takeWhile_dropWhile_id)

lemma last_elem_noslash: "CHR ''/'' \<notin> set (last_elem name)"
  unfolding last_elem_def using set_takeWhileD by fastforce

lemma dir_ends: "filepath_Dir name = [] \<or> (\<exists>d. filepath_Dir name = d @ ''/'')"
proof (cases "dropWhile (\<lambda>c. c \<noteq> CHR ''/'') (rev name)")
  case Nil
  then show ?thesis by (simp add: filepath_Dir_def)
next
  case (Cons a as)
  then have "a = CHR ''/''" using hd_dropWhile[of "\<lambda>c. c \<noteq> CHR ''/''" "rev name"] by auto
  with Cons show ?thesis by (simp add: filepath_Dir_def)
qed

lemma resolve_split: "resolve name = push (resolve (filepath_Dir name)) (last_elem name)"
proof -
  have n: "name = filepath_Dir name @ last_elem name" by (simp add: dir_last)
  from dir_ends[of name] show ?thesis
  proof
    assume d: "filepath_Dir name = []"
    then have "name = last_elem name" using n by simp
    then have "resolve name = walk [] [] (last_elem name @ [])" by (simp add: resolve_def)
    also have "\<dots> = walk [] ([] @ last_elem name) []"
      by (rule walk_noslash) (rule last_elem_noslash)
    finally show ?thesis using d by (simp add: resolve_def push_def)
  next
    assume "\<exists>d. filepath_Dir name = d @ ''/''"
    then obtain d where d: "filepath_Dir name = d @ ''/''" by blast
    have "resolve name = walk [] [] (d @ CHR ''/'' # last_elem name)"
      using n d by (simp add: resolve_def)
    also have "\<dots> = walk (walk [] [] d) [] (last_elem name @ [])"
      by (simp add: walk_slash)
    also have "\<dots> = walk (walk [] [] d) ([] @ last_elem name) []"
      by (rule walk_noslash) (rule last_elem_noslash)
    finally have a: "resolve name = push (walk [] [] d) (last_elem name)" by simp
    have "resolve (filepath_Dir name) = walk [] [] (d @ CHR ''/'' # [])"
      using d by (simp add: resolve_def)
    also have "\<dots> = walk [] [] d" by (simp add: walk_slash push_def)
    finally show ?thesis using a by simp
  qed
qed

lemma last_elem_down: "last_elem (d @ ''.down'') = last_elem d @ ''.down''"
  by (simp add: last_elem_def)

lemma dir_down: "filepath_Dir (d @ ''.down'') = filepath_Dir d"
  by (simp add: filepath_Dir_def)

lemma not_dirlike_down: "\<not> dirlike (d @ ''.down'')"
  by (auto simp: dirlike_def last_elem_down)

lemma resolve_down: "resolve (d @ ''.down'') = resolve (filepath_Dir d) @ [last_elem d @ ''.down'']"
  using resolve_split[of "d @ ''.down''"] by (simp add: last_elem_down dir_down push_def)

lemma resolve_file: "\<not> dirlike d \<Longrightarrow> resolve d = resolve (filepath_Dir d) @ [last_elem d]"
  using resolve_split[of d] by (simp add: dirlike_def push_def)

section \<open>File system operations\<close>

lemma lookup_update:
  "p \<noteq> [] \<Longrightarrow> lookup (AList.update p n fs) q = (if q = p then Some n else lookup fs q)"
  by (simp add: lookup_def update_conv')

lemma lookup_delete:
  "p \<noteq> [] \<Longrightarrow> lookup (AList.delete p fs) q = (if q = p then None else lookup fs q)"
  by (simp add: lookup_def delete_conv')

lemma lookup_filter:
  "lookup (filter (\<lambda>(q, n). P q) fs) p = (if p = [] \<or> P p then lookup fs p else None)"
  by (induction fs) (auto simp: lookup_def)

lemma lookup_RemoveAll:
  "resolve name \<noteq> [] \<Longrightarrow>
   lookup (os_RemoveAll name fs) q = (if prefix (resolve name) q then None else lookup fs q)"
  by (auto simp: os_RemoveAll_def lookup_filter)


lemma mkdirs_keeps:
  "mkdirs name qs fs = Inr fs' \<Longrightarrow> lookup fs q = Some n \<Longrightarrow> lookup fs' q = Some n"
proof (induction qs arbitrary: fs)
  case Nil
  then show ?case by simp
next
  case (Cons a qs)
  show ?case
  proof (cases "lookup fs a")
    case None
    then have a: "a \<noteq> []" by (auto simp: lookup_def)
    from None Cons.prems(2) have "q \<noteq> a" by auto
    with a Cons.prems(2) have "lookup (AList.update a Directory fs) q = Some n"
      by (simp add: lookup_update)
    moreover from Cons.prems(1) None have "mkdirs name qs (AList.update a Directory fs) = Inr fs'"
      by simp
    ultimately show ?thesis by (rule Cons.IH[rotated])
  next
    case (Some m)
    with Cons show ?thesis by (cases m) auto
  qed
qed

lemma mkdirs_dirs:
  "mkdirs name qs fs = Inr fs' \<Longrightarrow> q \<in> set qs \<Longrightarrow> lookup fs' q = Some Directory"
proof (induction qs arbitrary: fs)
  case Nil
  then show ?case by simp
next
  case (Cons a qs)
  show ?case
  proof (cases "lookup fs a")
    case None
    then have a: "a \<noteq> []" by (auto simp: lookup_def)
    from Cons.prems None have m: "mkdirs name qs (AList.update a Directory fs) = Inr fs'" by simp
    show ?thesis
    proof (cases "q = a")
      case True
      have "lookup (AList.update a Directory fs) a = Some Directory" using a by (simp add: lookup_update)
      with m True show ?thesis by (simp add: mkdirs_keeps)
    next
      case False
      with Cons.prems have "q \<in> set qs" by simp
      with m show ?thesis by (rule Cons.IH)
    qed
  next
    case (Some m)
    show ?thesis
    proof (cases m)
      case (File c)
      with Some Cons.prems show ?thesis by simp
    next
      case Directory
      with Some Cons.prems have m: "mkdirs name qs fs = Inr fs'" by simp
      show ?thesis
      proof (cases "q = a")
        case True
        with Some Directory m show ?thesis by (simp add: mkdirs_keeps)
      next
        case False
        with Cons.prems have "q \<in> set qs" by simp
        with m show ?thesis by (rule Cons.IH)
      qed
    qed
  qed
qed


lemma MkdirAll_keeps:
  "os_MkdirAll e name fs = Inr fs' \<Longrightarrow> lookup fs q = Some n \<Longrightarrow> lookup fs' q = Some n"
  by (auto simp: os_MkdirAll_def split: option.splits dest: mkdirs_keeps)

lemma MkdirAll_dirs:
  "os_MkdirAll e name fs = Inr fs' \<Longrightarrow> prefix q (resolve name) \<Longrightarrow> lookup fs' q = Some Directory"
  by (auto simp: os_MkdirAll_def split: option.splits dest: mkdirs_dirs)

lemma Create_lookup:
  "os_Create e name fs = Inr fs' \<Longrightarrow>
   resolve name \<noteq> [] \<Longrightarrow>
   lookup fs' q = (if q = resolve name then Some (File []) else lookup fs q)"
  by (auto simp: os_Create_def lookup_update split: option.splits if_splits node.splits)

lemma Create_not_dir:
  "os_Create e name fs = Inr fs' \<Longrightarrow> lookup fs (resolve name) \<noteq> Some Directory"
  by (auto simp: os_Create_def split: option.splits if_splits node.splits)

lemma file_Write_lookup:
  "file_Write e name b fs = (r, fs') \<Longrightarrow> resolve name \<noteq> [] \<Longrightarrow> q \<noteq> resolve name \<Longrightarrow>
   lookup fs' q = lookup fs q"
  by (auto simp: file_Write_def lookup_update split: option.splits node.splits)

lemma file_Write_file:
  "file_Write e name b fs = (r, fs') \<Longrightarrow> resolve name \<noteq> [] \<Longrightarrow>
   lookup fs (resolve name) = Some (File c) \<Longrightarrow>
   lookup fs' (resolve name) = Some (File (if r = None then c @ b else c))"
  by (auto simp: file_Write_def lookup_update split: option.splits node.splits)

lemma Remove_file:
  "lookup fs (resolve name) = Some (File c) \<Longrightarrow> \<not> dirlike name \<Longrightarrow> resolve name \<noteq> [] \<Longrightarrow>
   lookup (os_Remove name fs) q = (if q = resolve name then None else lookup fs q)"
  by (simp add: os_Remove_def lookup_delete)

lemma Rename_file:
  "os_Rename e old new fs = Inr fs' \<Longrightarrow> lookup fs (resolve old) = Some (File c) \<Longrightarrow>
   resolve old \<noteq> [] \<Longrightarrow> resolve new \<noteq> [] \<Longrightarrow>
   lookup fs' q = (if q = resolve new then Some (File c)
                   else if q = resolve old then None else lookup fs q)"
  by (auto simp: os_Rename_def lookup_update lookup_delete split: option.splits if_splits node.splits)

section \<open>Copying\<close>

lemma started_simps [simp]:
  "files (started task w) = files w" "chans (started task w) = chans w"
  "nchans (started task w) = nchans w" "requests (started task w) = requests w @ [url task]"
  by (simp_all add: started_def Printf_def)

lemma send_simps [simp]:
  "files (send c v w) = files w" "chans (send c v w) = (chans w)(c := chans w c @ [v])"
  "nchans (send c v w) = nchans w" "requests (send c v w) = requests w"
  "stdout (send c v w) = stdout w"
  by (simp_all add: send_def)

lemma Write_OutFile:
  "Write e (OutFile t) b (fs, cw) = (case file_Write e t b fs of (r, fs') \<Rightarrow> (r, (fs', cw)))"
  by simp

lemma Write_tee:
  "Write e (MultiWriter [OutFile t, Checksummer]) b (fs, cw) =
     (case file_Write e t b fs of
        (Some err, fs') \<Rightarrow> (Some err, (fs', cw))
      | (None, fs') \<Rightarrow> (None, (fs', cw @ b)))"
  by (simp split: prod.splits option.splits)

lemma io_Copy_frame:
  assumes "io_Copy e wr cs fin (fs, cw) = (r, (fs', cw'))"
    and "wr = OutFile t \<or> wr = MultiWriter [OutFile t, Checksummer]"
    and "resolve t \<noteq> []"
    and "lookup fs (resolve t) = Some (File c)"
  shows "(\<forall>q. q \<noteq> resolve t \<longrightarrow> lookup fs' q = lookup fs q) \<and>
         (\<exists>c'. lookup fs' (resolve t) = Some (File c'))"
  using assms
proof (induction cs arbitrary: fs cw c)
  case Nil
  then show ?case by simp
next
  case (Cons b cs)
  show ?case
  proof (cases "b = []")
    case True
    with Cons.prems have "io_Copy e wr cs fin (fs, cw) = (r, (fs', cw'))" by simp
    from Cons.IH[OF this Cons.prems(2,3,4)] show ?thesis .
  next
    case False
    obtain r1 fs1 where fw: "file_Write e t b fs = (r1, fs1)" by (cases "file_Write e t b fs")
    have o: "\<forall>q. q \<noteq> resolve t \<longrightarrow> lookup fs1 q = lookup fs q"
      using file_Write_lookup[OF fw Cons.prems(3)] by simp
    have f: "lookup fs1 (resolve t) = Some (File (if r1 = None then c @ b else c))"
      using file_Write_file[OF fw Cons.prems(3,4)] .
    show ?thesis
    proof (cases r1)
      case None
      then obtain cw1 where "io_Copy e wr cs fin (fs1, cw1) = (r, (fs', cw'))"
        using Cons.prems(1,2) False fw by (auto simp: Write_tee)
      from Cons.IH[OF this Cons.prems(2,3) f] o show ?thesis by simp
    next
      case (Some err)
      then have "fs' = fs1" using Cons.prems(1,2) False fw by (auto simp: Write_tee)
      with o f show ?thesis by simp
    qed
  qed
qed

lemma io_Copy_plain:
  "io_Copy e (OutFile t) cs fin (fs, cw) = (r, (fs', cw')) \<Longrightarrow> cw' = cw"
proof (induction cs arbitrary: fs)
  case Nil
  then show ?case by simp
next
  case (Cons b cs)
  then show ?case
    by (cases "file_Write e t b fs") (auto split: if_splits option.splits)
qed

lemma io_Copy_tee:
  assumes "io_Copy e (MultiWriter [OutFile t, Checksummer]) cs fin (fs, cw) = (None, (fs', cw'))"
    and "resolve t \<noteq> []"
    and "lookup fs (resolve t) = Some (File c)"
  shows "cw' = cw @ concat cs \<and> lookup fs' (resolve t) = Some (File (c @ concat cs))"
  using assms
proof (induction cs arbitrary: fs cw c)
  case Nil
  then show ?case by simp
next
  case (Cons b cs)
  show ?case
  proof (cases "b = []")
    case True
    with Cons.prems have "io_Copy e (MultiWriter [OutFile t, Checksummer]) cs fin (fs, cw) = (None, (fs', cw'))" by simp
    from Cons.IH[OF this Cons.prems(2,3)] True show ?thesis by simp
  next
    case False
    obtain r1 fs1 where fw: "file_Write e t b fs = (r1, fs1)" by (cases "file_Write e t b fs")
    have f: "lookup fs1 (resolve t) = Some (File (if r1 = None then c @ b else c))"
      using file_Write_file[OF fw Cons.prems(2,3)] .
    show ?thesis
    proof (cases r1)
      case None
      then have "io_Copy e (MultiWriter [OutFile t, Checksummer]) cs fin (fs1, cw @ b) = (None, (fs', cw'))"
        using Cons.prems(1) False fw by (simp add: Write_tee del: Write.simps)
      from Cons.IH[OF this Cons.prems(2)] f None show ?thesis by simp
    next
      case (Some err)
      then show ?thesis using Cons.prems(1) False fw by (simp add: Write_tee del: Write.simps)
    qed
  qed
qed

lemma handleTask_delivers:
  "\<exists>x. chans (handleTask e task w) = (chans w)(result task := chans w (result task) @ [x])"
  by (auto simp: handleTask_def handleTask_run_def Let_def split: sum.splits option.splits prod.splits)

section \<open>The paths through the protocol\<close>

lemma response_ok_D:
  "response_ok e task = Some resp \<Longrightarrow>
   http_Get e (url task) = Inr resp \<and> \<not> (StatusCode resp < 200 \<or> StatusCode resp > 299)"
  by (auto simp: response_ok_def split: sum.splits if_splits)

lemma made_dirs_D:
  "made_dirs e task w = Some fs1 \<Longrightarrow>
   \<exists>resp. response_ok e task = Some resp \<and>
     os_MkdirAll e (filepath_Dir (destination task)) (files w) = Inr fs1"
  by (auto simp: made_dirs_def split: sum.splits option.splits)

lemma created_D:
  "created e task w = Some fs2 \<Longrightarrow>
   \<exists>fs1. made_dirs e task w = Some fs1 \<and> os_Create e (destination task @ ''.down'') fs1 = Inr fs2"
  by (auto simp: created_def split: sum.splits option.splits)

lemma copied_D:
  "copied e task w = Some s \<Longrightarrow>
   \<exists>resp fs2. response_ok e task = Some resp \<and> created e task w = Some fs2 \<and>
     io_Copy e (if Size (expected task) \<noteq> - 1
                then MultiWriter [OutFile (destination task @ ''.down''), Checksummer]
                else OutFile (destination task @ ''.down''))
       (chunks (Body resp)) (read_err (Body resp)) (fs2, NewChecksumWriter) = (None, s)"
  unfolding copied_def
  by (cases "response_ok e task"; cases "created e task w")
     (auto split: prod.splits option.splits)

lemma run_created:
  assumes "created e task w = Some fs2" and "response_ok e task = Some resp"
  shows "handleTask_run e task w =
    (case io_Copy e (if Size (expected task) \<noteq> - 1
                then MultiWriter [OutFile (destination task @ ''.down''), Checksummer]
                else OutFile (destination task @ ''.down''))
            (chunks (Body resp)) (read_err (Body resp)) (fs2, NewChecksumWriter) of
       (Some err, (fs3, checksummer)) \<Rightarrow>
          (send (result task) (Some err)
             ((started task w)\<lparr>files := os_Remove (destination task @ ''.down'') fs3\<rparr>), checksummer)
     | (None, (fs3, checksummer)) \<Rightarrow>
         (case (if Size (expected task) \<noteq> - 1
                then mismatch (url task) (Sum e checksummer) (expected task) else None) of
            Some err \<Rightarrow>
              (send (result task) (Some err)
                 ((started task w)\<lparr>files := os_Remove (destination task @ ''.down'') fs3\<rparr>), checksummer)
          | None \<Rightarrow>
              (case os_Rename e (destination task @ ''.down'') (destination task) fs3 of
                 Inl err \<Rightarrow>
                   (send (result task) (Some err)
                      ((started task w)\<lparr>files := os_Remove (destination task @ ''.down'') fs3\<rparr>), checksummer)
               | Inr fs4 \<Rightarrow> (send (result task) None ((started task w)\<lparr>files := fs4\<rparr>), checksummer))))"
proof -
  from created_D[OF assms(1)] obtain fs1 where
    m: "made_dirs e task w = Some fs1" and c: "os_Create e (destination task @ ''.down'') fs1 = Inr fs2"
    by blast
  from made_dirs_D[OF m] assms(2) have
    d: "os_MkdirAll e (filepath_Dir (destination task)) (files w) = Inr fs1" by auto
  from response_ok_D[OF assms(2)] have
    g: "http_Get e (url task) = Inr resp" and s: "\<not> (StatusCode resp < 200 \<or> StatusCode resp > 299)"
    by auto
  show ?thesis
    unfolding handleTask_run_def Let_def by (simp only: g s d c sum.case if_False started_simps)
qed

lemma run_copied:
  assumes "copied e task w = Some (fs3, cw)"
  shows "handleTask_run e task w =
     (case (if Size (expected task) \<noteq> - 1
            then mismatch (url task) (Sum e cw) (expected task) else None) of
        Some err \<Rightarrow>
          (send (result task) (Some err)
             ((started task w)\<lparr>files := os_Remove (destination task @ ''.down'') fs3\<rparr>), cw)
      | None \<Rightarrow>
          (case os_Rename e (destination task @ ''.down'') (destination task) fs3 of
             Inl err \<Rightarrow>
               (send (result task) (Some err)
                  ((started task w)\<lparr>files := os_Remove (destination task @ ''.down'') fs3\<rparr>), cw)
           | Inr fs4 \<Rightarrow> (send (result task) None ((started task w)\<lparr>files := fs4\<rparr>), cw)))"
proof -
  from copied_D[OF assms] obtain resp fs2 where
    r: "response_ok e task = Some resp" and c: "created e task w = Some fs2" and
    i: "io_Copy e (if Size (expected task) \<noteq> - 1
                then MultiWriter [OutFile (destination task @ ''.down''), Checksummer]
                else OutFile (destination task @ ''.down''))
       (chunks (Body resp)) (read_err (Body resp)) (fs2, NewChecksumWriter) = (None, (fs3, cw))"
    by blast
  show ?thesis unfolding run_created[OF c r] i by simp
qed

lemma run_not_copied:
  assumes "created e task w = Some fs2" and "response_ok e task = Some resp"
    and "io_Copy e (if Size (expected task) \<noteq> - 1
                   then MultiWriter [OutFile (destination task @ ''.down''), Checksummer]
                   else OutFile (destination task @ ''.down''))
                  (chunks (Body resp)) (read_err (Body resp)) (fs2, NewChecksumWriter)
         = (Some err, (fs3, cw))"
  shows "handleTask_run e task w =
          (send (result task) (Some err)
             ((started task w)\<lparr>files := os_Remove (destination task @ ''.down'') fs3\<rparr>), cw)"
  unfolding run_created[OF assms(1,2)] assms(3) by simp

lemma run_not_created:
  assumes "made_dirs e task w = Some fs1"
    and "os_Create e (destination task @ ''.down'') fs1 = Inl err"
  shows "handleTask_run e task w =
          (send (result task) (Some err) ((started task w)\<lparr>files := fs1\<rparr>), NewChecksumWriter)"
proof -
  from made_dirs_D[OF assms(1)] obtain resp where
    r: "response_ok e task = Some resp" and
    d: "os_MkdirAll e (filepath_Dir (destination task)) (files w) = Inr fs1" by blast
  from response_ok_D[OF r] have
    g: "http_Get e (url task) = Inr resp" and s: "\<not> (StatusCode resp < 200 \<or> StatusCode resp > 299)"
    by auto
  show ?thesis
    unfolding handleTask_run_def Let_def
    by (simp only: g s d assms(2) sum.case if_False started_simps)
qed

lemma run_no_dirs:
  assumes "response_ok e task = Some resp"
    and "os_MkdirAll e (filepath_Dir (destination task)) (files w) = Inl err"
  shows "handleTask_run e task w =
          (send (result task) (Some err) (started task w), NewChecksumWriter)"
proof -
  from response_ok_D[OF assms(1)] have
    g: "http_Get e (url task) = Inr resp" and s: "\<not> (StatusCode resp < 200 \<or> StatusCode resp > 299)"
    by auto
  show ?thesis
    unfolding handleTask_run_def Let_def
    by (simp only: g s assms(2) sum.case if_False started_simps)
qed

lemma run_bad_status:
  assumes "http_Get e (url task) = Inr resp"
    and "StatusCode resp < 200 \<or> StatusCode resp > 299"
  shows "handleTask_run e task w =
          (send (result task)
             (Some (Errorf ''HTTP code %d while fetching %s''
                      [IntArg (StatusCode resp), StrArg (url task)])) (started task w),
           NewChecksumWriter)"
  using assms by (auto simp: handleTask_run_def Let_def)

lemma run_no_response:
  assumes "http_Get e (url task) = Inl reason"
  shows "handleTask_run e task w =
          (send (result task) (Some (UrlError (url task) reason)) (started task w),
           NewChecksumWriter)"
  using assms by (auto simp: handleTask_run_def Let_def)

lemma mkdirs_error: "mkdirs name qs fs = Inl err \<Longrightarrow> \<exists>no. err = PathError ''mkdir'' name no"
  by (induction qs arbitrary: fs) (auto split: option.splits node.splits)

lemma MkdirAll_error: "os_MkdirAll e name fs = Inl err \<Longrightarrow> \<exists>no. err = PathError ''mkdir'' name no"
  by (auto simp: os_MkdirAll_def split: option.splits dest: mkdirs_error)

lemma Create_error: "os_Create e name fs = Inl err \<Longrightarrow> \<exists>no. err = PathError ''open'' name no"
  by (auto simp: os_Create_def split: option.splits node.splits if_splits)

lemma Rename_error: "os_Rename e old new fs = Inl err \<Longrightarrow> \<exists>no. err = LinkError ''rename'' old new no"
  by (auto simp: os_Rename_def split: option.splits node.splits if_splits)

lemma file_Write_error:
  "file_Write e name b fs = (Some err, fs') \<Longrightarrow> \<exists>no. err = PathError ''write'' name no"
  by (auto simp: file_Write_def split: option.splits node.splits)

lemma io_Copy_error:
  assumes "io_Copy e wr cs fin s = (Some err, s')"
    and "wr = OutFile t \<or> wr = MultiWriter [OutFile t, Checksummer]"
  shows "(\<exists>no. err = PathError ''write'' t no) \<or> (\<exists>reason. err = BodyError reason)"
  using assms
proof (induction cs arbitrary: s)
  case Nil
  then show ?case by auto
next
  case (Cons b cs)
  obtain fs cw where s: "s = (fs, cw)" by (cases s)
  obtain r1 fs1 where fw: "file_Write e t b fs = (r1, fs1)" by (cases "file_Write e t b fs")
  show ?case
  proof (cases "b = []")
    case True
    with Cons show ?thesis by simp
  next
    case False
    show ?thesis
    proof (cases r1)
      case None
      then obtain s1 where "io_Copy e wr cs fin s1 = (Some err, s')"
        using Cons.prems False fw s by (auto simp: Write_tee Write_OutFile simp del: Write.simps)
      from Cons.IH[OF this Cons.prems(2)] show ?thesis .
    next
      case (Some err1)
      then have "err = err1" using Cons.prems False fw s by (auto simp: Write_tee Write_OutFile simp del: Write.simps)
      with Some fw show ?thesis by (auto dest: file_Write_error)
    qed
  qed
qed

section \<open>Verification\<close>

lemma chans_run:
  "handleTask_run e task w = (send (result task) x w', cw) \<Longrightarrow> chans w' = chans w \<Longrightarrow>
   chans (handleTask e task w) = (chans w)(result task := chans w (result task) @ [x])"
  by (simp add: handleTask_def)

lemma fun_upd_snoc_eq:
  "f(c := f c @ [x]) = f(c := f c @ [y]) \<Longrightarrow> x = y"
  by (metis fun_upd_same last_snoc)

lemma temp_nonempty: "resolve (d @ ''.down'') \<noteq> []"
  by (simp add: resolve_down)

lemma created_file:
  "created e task w = Some fs2 \<Longrightarrow> lookup fs2 (resolve (destination task @ ''.down'')) = Some (File [])"
  by (auto dest!: created_D simp: Create_lookup[OF _ temp_nonempty])

lemma copied_tee:
  assumes "copied e task w = Some (fs3, cw)" and "Size (expected task) \<noteq> - 1"
  shows "\<exists>resp. http_Get e (url task) = Inr resp \<and> cw = concat (chunks (Body resp))"
proof -
  from copied_D[OF assms(1)] assms(2) obtain resp fs2 where
    r: "response_ok e task = Some resp" and c: "created e task w = Some fs2" and
    i: "io_Copy e (MultiWriter [OutFile (destination task @ ''.down''), Checksummer])
       (chunks (Body resp)) (read_err (Body resp)) (fs2, NewChecksumWriter) = (None, (fs3, cw))"
    by auto
  from io_Copy_tee[OF i temp_nonempty created_file[OF c]] have "cw = concat (chunks (Body resp))"
    by (simp add: NewChecksumWriter_def)
  with response_ok_D[OF r] show ?thesis by blast
qed

lemma mismatch_size:
  "Size actual \<noteq> Size want \<Longrightarrow>
   mismatch u actual want = Some (Errorf ''%s: size check mismatch %d != %d''
                              [StrArg u, IntArg (Size actual), IntArg (Size want)])"
  by (simp add: mismatch_def)

lemma mismatch_md5:
  "Size actual = Size want \<Longrightarrow> MD5 want \<noteq> [] \<Longrightarrow> MD5 actual \<noteq> MD5 want \<Longrightarrow>
   mismatch u actual want = Some (Errorf ''%s: md5 hash mismatch %#v != %#v''
                              [StrArg u, StrArg (MD5 actual), StrArg (MD5 want)])"
  by (simp add: mismatch_def)

lemma mismatch_sha1:
  "Size actual = Size want \<Longrightarrow> MD5 want = [] \<or> MD5 actual = MD5 want \<Longrightarrow>
   SHA1 want \<noteq> [] \<Longrightarrow> SHA1 actual \<noteq> SHA1 want \<Longrightarrow>
   mismatch u actual want = Some (Errorf ''%s: sha1 hash mismatch %#v != %#v''
                              [StrArg u, StrArg (SHA1 actual), StrArg (SHA1 want)])"
  unfolding mismatch_def by (elim disjE) simp_all

lemma mismatch_sha256:
  "Size actual = Size want \<Longrightarrow> MD5 want = [] \<or> MD5 actual = MD5 want \<Longrightarrow>
   SHA1 want = [] \<or> SHA1 actual = SHA1 want \<Longrightarrow>
   SHA256 want \<noteq> [] \<Longrightarrow> SHA256 actual \<noteq> SHA256 want \<Longrightarrow>
   mismatch u actual want = Some (Errorf ''%s: sha256 hash mismatch %#v != %#v''
                              [StrArg u, StrArg (SHA256 actual), StrArg (SHA256 want)])"
  unfolding mismatch_def by (elim disjE) simp_all

lemma mismatch_none:
  "Size actual = Size want \<Longrightarrow> MD5 want = [] \<or> MD5 actual = MD5 want \<Longrightarrow>
   SHA1 want = [] \<or> SHA1 actual = SHA1 want \<Longrightarrow>
   SHA256 want = [] \<or> SHA256 actual = SHA256 want \<Longrightarrow>
   mismatch u actual want = None"
  unfolding mismatch_def by (elim disjE) simp_all

lemma delivered_mismatch:
  assumes "copied e task w = Some (fs3, cw)" and "Size (expected task) \<noteq> - 1"
    and "mismatch (url task) (Sum e cw) (expected task) = Some err"
  shows "chans (handleTask e task w) (result task) = chans w (result task) @ [Some err]"
    and "files (handleTask e task w) = os_Remove (destination task @ ''.down'') fs3"
  unfolding handleTask_def run_copied[OF assms(1)] using assms(2,3) by simp_all

lemma delivered_commit:
  assumes "copied e task w = Some (fs3, cw)"
    and "Size (expected task) = - 1 \<or> mismatch (url task) (Sum e cw) (expected task) = None"
  shows "chans (handleTask e task w) (result task) = chans w (result task) @
           [case os_Rename e (destination task @ ''.down'') (destination task) fs3 of
              Inl err \<Rightarrow> Some err | Inr fs4 \<Rightarrow> None]"
    and "files (handleTask e task w) =
           (case os_Rename e (destination task @ ''.down'') (destination task) fs3 of
              Inl err \<Rightarrow> os_Remove (destination task @ ''.down'') fs3 | Inr fs4 \<Rightarrow> fs4)"
proof -
  have v: "(if Size (expected task) \<noteq> - 1
            then mismatch (url task) (Sum e cw) (expected task) else None) = None"
    using assms(2) by auto
  show "chans (handleTask e task w) (result task) = chans w (result task) @
           [case os_Rename e (destination task @ ''.down'') (destination task) fs3 of
              Inl err \<Rightarrow> Some err | Inr fs4 \<Rightarrow> None]"
    unfolding handleTask_def run_copied[OF assms(1)] v
    by (cases "os_Rename e (destination task @ ''.down'') (destination task) fs3") simp_all
  show "files (handleTask e task w) =
           (case os_Rename e (destination task @ ''.down'') (destination task) fs3 of
              Inl err \<Rightarrow> os_Remove (destination task @ ''.down'') fs3 | Inr fs4 \<Rightarrow> fs4)"
    unfolding handleTask_def run_copied[OF assms(1)] v
    by (cases "os_Rename e (destination task @ ''.down'') (destination task) fs3") simp_all
qed

text \<open>Claim C1. For a task with verification requested (expected size not -1), once the
  copy has ended without error the checksum writer holds exactly the bytes of the body,
  and the checks run in the order size, md5, sha1, sha256: a size mismatch delivers the
  size error whatever the hash fields are; with the size right, the first hash field that
  is non-empty and differs delivers the error naming that field, whatever the later fields
  are; an empty expected hash is not compared; and when nothing differs the outcome is
  that of the rename.\<close>

theorem verification_order:
  assumes "Size (expected task) \<noteq> - 1"
    and "copied e task w = Some (fs3, cw)"
    and "actual = Sum e cw" and "want = expected task"
    and "out = chans (handleTask e task w) (result task)"
    and "before = chans w (result task)"
  shows "(\<exists>resp. http_Get e (url task) = Inr resp \<and> cw = concat (chunks (Body resp))) \<and>
    (Size actual \<noteq> Size want \<longrightarrow>
       out = before @ [Some (Errorf ''%s: size check mismatch %d != %d''
                              [StrArg (url task), IntArg (Size actual), IntArg (Size want)])]) \<and>
    (Size actual = Size want \<and> MD5 want \<noteq> [] \<and> MD5 actual \<noteq> MD5 want \<longrightarrow>
       out = before @ [Some (Errorf ''%s: md5 hash mismatch %#v != %#v''
                              [StrArg (url task), StrArg (MD5 actual), StrArg (MD5 want)])]) \<and>
    (Size actual = Size want \<and> (MD5 want = [] \<or> MD5 actual = MD5 want) \<and>
     SHA1 want \<noteq> [] \<and> SHA1 actual \<noteq> SHA1 want \<longrightarrow>
       out = before @ [Some (Errorf ''%s: sha1 hash mismatch %#v != %#v''
                              [StrArg (url task), StrArg (SHA1 actual), StrArg (SHA1 want)])]) \<and>
    (Size actual = Size want \<and> (MD5 want = [] \<or> MD5 actual = MD5 want) \<and>
     (SHA1 want = [] \<or> SHA1 actual = SHA1 want) \<and>
     SHA256 want \<noteq> [] \<and> SHA256 actual \<noteq> SHA256 want \<longrightarrow>
       out = before @ [Some (Errorf ''%s: sha256 hash mismatch %#v != %#v''
                              [StrArg (url task), StrArg (SHA256 actual), StrArg (SHA256 want)])]) \<and>
    (Size actual = Size want \<and> (MD5 want = [] \<or> MD5 actual = MD5 want) \<and>
     (SHA1 want = [] \<or> SHA1 actual = SHA1 want) \<and>
     (SHA256 want = [] \<or> SHA256 actual = SHA256 want) \<longrightarrow>
       out = before @ [case os_Rename e (destination task @ ''.down'') (destination task) fs3 of
                         Inl err \<Rightarrow> Some err | Inr fs4 \<Rightarrow> None])"
proof -
  note d = delivered_mismatch(1)[OF assms(2,1), folded assms(3,4,5,6)]
  have tee: "\<exists>resp. http_Get e (url task) = Inr resp \<and> cw = concat (chunks (Body resp))"
    using copied_tee[OF assms(2,1)] .
  have pass: "out = before @ [case os_Rename e (destination task @ ''.down'') (destination task) fs3 of
                         Inl err \<Rightarrow> Some err | Inr fs4 \<Rightarrow> None]"
    if "mismatch (url task) actual want = None"
    using delivered_commit(1)[OF assms(2)] that unfolding assms(3,4,5,6) by simp
  show ?thesis
  proof (intro conjI impI; (elim conjE)?)
    show "\<exists>resp. http_Get e (url task) = Inr resp \<and> cw = concat (chunks (Body resp))"
      by (rule tee)
  next
    assume "Size actual \<noteq> Size want"
    then show "out = before @ [Some (Errorf ''%s: size check mismatch %d != %d''
                              [StrArg (url task), IntArg (Size actual), IntArg (Size want)])]"
      by (intro d mismatch_size)
  next
    assume "Size actual = Size want" "MD5 want \<noteq> []" "MD5 actual \<noteq> MD5 want"
    then show "out = before @ [Some (Errorf ''%s: md5 hash mismatch %#v != %#v''
                              [StrArg (url task), StrArg (MD5 actual), StrArg (MD5 want)])]"
      by (intro d mismatch_md5)
  next
    assume "Size actual = Size want" "MD5 want = [] \<or> MD5 actual = MD5 want"
      "SHA1 want \<noteq> []" "SHA1 actual \<noteq> SHA1 want"
    then show "out = before @ [Some (Errorf ''%s: sha1 hash mismatch %#v != %#v''
                              [StrArg (url task), StrArg (SHA1 actual), StrArg (SHA1 want)])]"
      by (intro d mismatch_sha1)
  next
    assume "Size actual = Size want" "MD5 want = [] \<or> MD5 actual = MD5 want"
      "SHA1 want = [] \<or> SHA1 actual = SHA1 want"
      "SHA256 want \<noteq> []" "SHA256 actual \<noteq> SHA256 want"
    then show "out = before @ [Some (Errorf ''%s: sha256 hash mismatch %#v != %#v''
                              [StrArg (url task), StrArg (SHA256 actual), StrArg (SHA256 want)])]"
      by (intro d mismatch_sha256)
  next
    assume "Size actual = Size want" "MD5 want = [] \<or> MD5 actual = MD5 want"
      "SHA1 want = [] \<or> SHA1 actual = SHA1 want"
      "SHA256 want = [] \<or> SHA256 actual = SHA256 want"
    then show "out = before @ [case os_Rename e (destination task @ ''.down'') (destination task) fs3 of
                         Inl err \<Rightarrow> Some err | Inr fs4 \<Rightarrow> None]"
      by (intro pass mismatch_none)
  qed
qed

theorem verification_order_witness:
  "Size (expected (demo_task ''http://repo/Packages'' ''pool/main/Packages''
       \<lparr>Size = 3, MD5 = ''deadbeef'', SHA1 = ''0000'', SHA256 = []\<rparr>)) \<noteq> - 1 \<and>
   copied demo_env (demo_task ''http://repo/Packages'' ''pool/main/Packages''
       \<lparr>Size = 3, MD5 = ''deadbeef'', SHA1 = ''0000'', SHA256 = []\<rparr>) demo_world =
     Some ([([''tmp''], Directory), ([''pool''], Directory), ([''pool'', ''main''], Directory),
            ([''pool'', ''main'', ''Packages.down''], File [1, 2, 3])], [1, 2, 3]) \<and>
   chans (handleTask demo_env (demo_task ''http://repo/Packages'' ''pool/main/Packages''
       \<lparr>Size = 3, MD5 = ''deadbeef'', SHA1 = ''0000'', SHA256 = []\<rparr>) demo_world) 0 =
     [Some (Errorf ''%s: md5 hash mismatch %#v != %#v''
              [StrArg ''http://repo/Packages'', StrArg ''5289df73'', StrArg ''deadbeef''])]"
proof -
  let ?t = "demo_task ''http://repo/Packages'' ''pool/main/Packages''
       \<lparr>Size = 3, MD5 = ''deadbeef'', SHA1 = ''0000'', SHA256 = []\<rparr>"
  let ?fs = "[([''tmp''], Directory), ([''pool''], Directory), ([''pool'', ''main''], Directory),
            ([''pool'', ''main'', ''Packages.down''], File [1, 2, 3])]"
  have s: "Size (expected ?t) \<noteq> - 1" by (simp add: demo_task_def)
  have c: "copied demo_env ?t demo_world = Some (?fs, [1, 2, 3])" by code_simp
  have a: "Sum demo_env [1, 2, 3] =
      \<lparr>Size = 3, MD5 = ''5289df73'', SHA1 = ''7037807198'', SHA256 = ''039058c6f2c0''\<rparr>"
    by (simp add: Sum_def demo_env_def)
  from verification_order[OF s c refl refl refl refl]
  have "chans (handleTask demo_env ?t demo_world) (result ?t) = chans demo_world (result ?t) @
     [Some (Errorf ''%s: md5 hash mismatch %#v != %#v''
              [StrArg (url ?t), StrArg (MD5 (Sum demo_env [1, 2, 3])), StrArg (MD5 (expected ?t))])]"
    by (simp add: a demo_task_def)
  then show ?thesis using s c by (simp add: a demo_task_def demo_world_def)
qed

section \<open>One outcome per task\<close>

lemma handleTask_chans_run:
  "handleTask_run e task w = (send (result task) x w', cw) \<Longrightarrow> chans w' = chans w \<Longrightarrow>
   y = x \<Longrightarrow>
   chans (handleTask e task w) = (chans w)(result task := chans w (result task) @ [y])"
  by (simp add: handleTask_def)

text \<open>Claim C3. Every run of \<^verbatim>\<open>handleTask\<close> appends exactly one value to the task's
  result channel and leaves every other channel as it was. That value is the transport
  error when the GET fails, the HTTP status error when the status is outside 200..299,
  the error of \<^verbatim>\<open>MkdirAll\<close>, of \<^verbatim>\<open>Create\<close>, of the copy, of the verification or of the
  rename on the path that fails there, and nil when the rename succeeds.\<close>

theorem exactly_one_outcome:
  "\<exists>x. chans (handleTask e task w) = (chans w)(result task := chans w (result task) @ [x]) \<and>
     (\<forall>reason. http_Get e (url task) = Inl reason \<longrightarrow> x = Some (UrlError (url task) reason)) \<and>
     (\<forall>resp. http_Get e (url task) = Inr resp \<and> (StatusCode resp < 200 \<or> 299 < StatusCode resp) \<longrightarrow>
        x = Some (Errorf ''HTTP code %d while fetching %s''
                    [IntArg (StatusCode resp), StrArg (url task)])) \<and>
     (\<forall>resp err. response_ok e task = Some resp \<and>
        os_MkdirAll e (filepath_Dir (destination task)) (files w) = Inl err \<longrightarrow> x = Some err) \<and>
     (\<forall>fs1 err. made_dirs e task w = Some fs1 \<and>
        os_Create e (destination task @ ''.down'') fs1 = Inl err \<longrightarrow> x = Some err) \<and>
     (\<forall>resp fs2 err s. response_ok e task = Some resp \<and> created e task w = Some fs2 \<and>
        io_Copy e (if Size (expected task) \<noteq> - 1
                   then MultiWriter [OutFile (destination task @ ''.down''), Checksummer]
                   else OutFile (destination task @ ''.down''))
          (chunks (Body resp)) (read_err (Body resp)) (fs2, NewChecksumWriter) = (Some err, s) \<longrightarrow>
        x = Some err) \<and>
     (\<forall>fs3 cw err. copied e task w = Some (fs3, cw) \<and> Size (expected task) \<noteq> - 1 \<and>
        mismatch (url task) (Sum e cw) (expected task) = Some err \<longrightarrow> x = Some err) \<and>
     (\<forall>fs3 cw err. copied e task w = Some (fs3, cw) \<and>
        (Size (expected task) = - 1 \<or> mismatch (url task) (Sum e cw) (expected task) = None) \<and>
        os_Rename e (destination task @ ''.down'') (destination task) fs3 = Inl err \<longrightarrow>
        x = Some err) \<and>
     (\<forall>fs3 cw fs4. copied e task w = Some (fs3, cw) \<and>
        (Size (expected task) = - 1 \<or> mismatch (url task) (Sum e cw) (expected task) = None) \<and>
        os_Rename e (destination task @ ''.down'') (destination task) fs3 = Inr fs4 \<longrightarrow>
        x = None)"
proof -
  from handleTask_delivers[of e task w] obtain x where
    x: "chans (handleTask e task w) = (chans w)(result task := chans w (result task) @ [x])"
    by blast
  have eq: "x = y"
    if "handleTask_run e task w = (send (result task) y w', cw)" "chans w' = chans w" for y w' cw
    using handleTask_chans_run[OF that refl] x by (metis fun_upd_snoc_eq)
  have p1: "x = Some (UrlError (url task) reason)" if "http_Get e (url task) = Inl reason" for reason
    by (rule eq[OF run_no_response[OF that]]) simp
  have p2: "x = Some (Errorf ''HTTP code %d while fetching %s''
                    [IntArg (StatusCode resp), StrArg (url task)])"
    if "http_Get e (url task) = Inr resp" "StatusCode resp < 200 \<or> 299 < StatusCode resp" for resp
    by (rule eq[OF run_bad_status[OF that]]) simp
  have p3: "x = Some err"
    if "response_ok e task = Some resp"
       "os_MkdirAll e (filepath_Dir (destination task)) (files w) = Inl err" for resp err
    by (rule eq[OF run_no_dirs[OF that]]) simp
  have p4: "x = Some err"
    if "made_dirs e task w = Some fs1" "os_Create e (destination task @ ''.down'') fs1 = Inl err"
    for fs1 err
    by (rule eq[OF run_not_created[OF that]]) simp
  have p5: "x = Some err"
    if "response_ok e task = Some resp" "created e task w = Some fs2"
       "io_Copy e (if Size (expected task) \<noteq> - 1
                   then MultiWriter [OutFile (destination task @ ''.down''), Checksummer]
                   else OutFile (destination task @ ''.down''))
          (chunks (Body resp)) (read_err (Body resp)) (fs2, NewChecksumWriter) = (Some err, s)"
    for resp fs2 err s
  proof -
    obtain fs3 cw where "s = (fs3, cw)" by (cases s)
    with that(3) show ?thesis
      by (intro eq[OF run_not_copied[OF that(2,1)]]) simp_all
  qed
  have d: "chans (handleTask e task w) (result task) = chans w (result task) @ [x]"
    using x by simp
  have p6: "x = Some err"
    if "copied e task w = Some (fs3, cw)" "Size (expected task) \<noteq> - 1"
       "mismatch (url task) (Sum e cw) (expected task) = Some err" for fs3 cw err
    using delivered_mismatch(1)[OF that] d by simp
  have p7: "x = Some err"
    if "copied e task w = Some (fs3, cw)"
       "Size (expected task) = - 1 \<or> mismatch (url task) (Sum e cw) (expected task) = None"
       "os_Rename e (destination task @ ''.down'') (destination task) fs3 = Inl err" for fs3 cw err
    using delivered_commit(1)[OF that(1,2)] d that(3) by simp
  have p8: "x = None"
    if "copied e task w = Some (fs3, cw)"
       "Size (expected task) = - 1 \<or> mismatch (url task) (Sum e cw) (expected task) = None"
       "os_Rename e (destination task @ ''.down'') (destination task) fs3 = Inr fs4" for fs3 cw fs4
    using delivered_commit(1)[OF that(1,2)] d that(3) by simp
  show ?thesis
    apply (intro exI[of _ x] conjI allI impI; (elim conjE)?)
            apply (rule x)
           apply (erule p1)
          apply (erule (1) p2)
         apply (erule (1) p3)
        apply (erule (1) p4)
       apply (erule (2) p5)
      apply (erule (2) p6)
     apply (erule (2) p7)
    apply (erule (2) p8)
    done
qed

theorem exactly_one_outcome_witness:
  "chans (handleTask demo_env (demo_task ''http://repo/gone'' ''pool/gone'' \<lparr>Size = - 1, MD5 = [], SHA1 = [], SHA256 = []\<rparr>)
           (demo_world\<lparr>chans := (\<lambda>c. [None])\<rparr>)) 0 =
     [None, Some (Errorf ''HTTP code %d while fetching %s'' [IntArg 404, StrArg ''http://repo/gone''])] \<and>
   chans (handleTask demo_env (demo_task ''http://repo/gone'' ''pool/gone'' \<lparr>Size = - 1, MD5 = [], SHA1 = [], SHA256 = []\<rparr>)
           (demo_world\<lparr>chans := (\<lambda>c. [None])\<rparr>)) 1 = [None]"
proof -
  let ?t = "demo_task ''http://repo/gone'' ''pool/gone'' \<lparr>Size = - 1, MD5 = [], SHA1 = [], SHA256 = []\<rparr>"
  let ?w = "demo_world\<lparr>chans := (\<lambda>c. [None])\<rparr>"
  have g: "http_Get demo_env (url ?t) =
     Inr \<lparr>StatusCode = 404, Body = \<lparr>chunks = [[4, 0, 4]], read_err = None\<rparr>\<rparr>"
    by (simp add: demo_env_def demo_task_def)
  from exactly_one_outcome[of demo_env ?t ?w] obtain x where
    x: "chans (handleTask demo_env ?t ?w) = (chans ?w)(result ?t := chans ?w (result ?t) @ [x])"
    and "\<forall>resp. http_Get demo_env (url ?t) = Inr resp \<and> (StatusCode resp < 200 \<or> 299 < StatusCode resp) \<longrightarrow>
        x = Some (Errorf ''HTTP code %d while fetching %s''
                    [IntArg (StatusCode resp), StrArg (url ?t)])"
    by - (elim exE conjE, rule that)
  with g have "x = Some (Errorf ''HTTP code %d while fetching %s'' [IntArg 404, StrArg ''http://repo/gone''])"
    by (simp add: demo_task_def)
  with x show ?thesis by (simp add: demo_task_def demo_world_def)
qed

section \<open>Tasks without verification\<close>

lemma run_checksummer_unused:
  assumes "Size (expected task) = - 1"
  shows "snd (handleTask_run e task w) = NewChecksumWriter"
proof (cases "response_ok e task")
  case None
  then show ?thesis
    by (cases "http_Get e (url task)")
       (auto simp: response_ok_def run_no_response run_bad_status split: if_splits)
next
  case (Some resp)
  note r = this
  show ?thesis
  proof (cases "os_MkdirAll e (filepath_Dir (destination task)) (files w)")
    case (Inl err)
    then show ?thesis by (simp add: run_no_dirs[OF r])
  next
    case (Inr fs1)
    with r have m: "made_dirs e task w = Some fs1" by (simp add: made_dirs_def)
    show ?thesis
    proof (cases "os_Create e (destination task @ ''.down'') fs1")
      case (Inl err)
      then show ?thesis by (simp add: run_not_created[OF m])
    next
      case (Inr fs2)
      with m have c: "created e task w = Some fs2" by (simp add: created_def)
      obtain x fs3 cw where i: "io_Copy e (OutFile (destination task @ ''.down''))
          (chunks (Body resp)) (read_err (Body resp)) (fs2, NewChecksumWriter) = (x, (fs3, cw))"
        by (metis surj_pair)
      from io_Copy_plain[OF i] have cw: "cw = NewChecksumWriter" .
      show ?thesis
      proof (cases x)
        case None
        show ?thesis
          unfolding run_created[OF c r] using assms i cw None
          by (cases "os_Rename e (destination task @ ''.down'') (destination task) fs3") simp_all
      next
        case (Some err)
        show ?thesis
          unfolding run_created[OF c r] using assms i cw Some by simp
      qed
    qed
  qed
qed

lemma file_Write_env:
  assumes "fault e' = fault e"
  shows "file_Write e' = file_Write e"
  unfolding file_Write_def assms by (rule refl)

lemma MkdirAll_env:
  assumes "fault e' = fault e"
  shows "os_MkdirAll e' = os_MkdirAll e"
  unfolding os_MkdirAll_def assms by (rule refl)

lemma Create_env:
  assumes "fault e' = fault e"
  shows "os_Create e' = os_Create e"
  unfolding os_Create_def assms by (rule refl)

lemma Rename_env:
  assumes "fault e' = fault e"
  shows "os_Rename e' = os_Rename e"
  unfolding os_Rename_def assms by (rule refl)

lemma io_Copy_env:
  assumes "fault e' = fault e"
  shows "io_Copy e' (OutFile t) cs fin s = io_Copy e (OutFile t) cs fin s"
  by (induction cs arbitrary: s)
     (auto simp: file_Write_env[OF assms] split: prod.splits option.splits)

lemma run_env:
  assumes "Size (expected task) = - 1" and "http_Get e' = http_Get e" and "fault e' = fault e"
  shows "handleTask_run e' task w = handleTask_run e task w"
  unfolding handleTask_run_def Let_def assms(1,2) MkdirAll_env[OF assms(3)] Create_env[OF assms(3)]
    Rename_env[OF assms(3)] io_Copy_env[OF assms(3)] simp_thms if_False
  by (rule TrueI)

lemma run_fields:
  assumes "Size (expected task) = - 1"
  shows "handleTask_run e (task\<lparr>expected := \<lparr>Size = - 1, MD5 = m, SHA1 = s1, SHA256 = s2\<rparr>\<rparr>) w =
         handleTask_run e task w"
proof -
  let ?t = "task\<lparr>expected := \<lparr>Size = - 1, MD5 = m, SHA1 = s1, SHA256 = s2\<rparr>\<rparr>"
  have a: "url ?t = url task" "destination ?t = destination task" "result ?t = result task"
    "Size (expected ?t) = - 1" "started ?t w = started task w"
    by (simp_all add: started_def)
  show ?thesis
    unfolding handleTask_run_def Let_def a assms simp_thms if_False
    by (rule TrueI)
qed

text \<open>Claim C4. For a task whose expected size is -1 the checksum writer receives no
  byte; the run is the same whatever the expected md5, sha1 and sha256 fields are and
  whatever the hash functions compute; and once the copy has ended without error the
  outcome is that of the rename alone.\<close>

theorem verification_skipped:
  assumes "Size (expected task) = - 1"
  shows "snd (handleTask_run e task w) = NewChecksumWriter \<and>
    handleTask e (task\<lparr>expected := \<lparr>Size = - 1, MD5 = m, SHA1 = s1, SHA256 = s2\<rparr>\<rparr>) w =
      handleTask e task w \<and>
    handleTask (e\<lparr>md5sum := f, sha1sum := g, sha256sum := h\<rparr>) task w = handleTask e task w \<and>
    (\<forall>fs3 cw. copied e task w = Some (fs3, cw) \<longrightarrow>
       chans (handleTask e task w) (result task) = chans w (result task) @
         [case os_Rename e (destination task @ ''.down'') (destination task) fs3 of
            Inl err \<Rightarrow> Some err | Inr fs4 \<Rightarrow> None])"
proof (intro conjI allI impI)
  show "snd (handleTask_run e task w) = NewChecksumWriter"
    by (rule run_checksummer_unused[OF assms])
  show "handleTask e (task\<lparr>expected := \<lparr>Size = - 1, MD5 = m, SHA1 = s1, SHA256 = s2\<rparr>\<rparr>) w =
      handleTask e task w"
    by (simp add: handleTask_def run_fields[OF assms])
  show "handleTask (e\<lparr>md5sum := f, sha1sum := g, sha256sum := h\<rparr>) task w = handleTask e task w"
    unfolding handleTask_def
    by (rule arg_cong[where f = fst], rule run_env[OF assms]) simp_all
  show "chans (handleTask e task w) (result task) = chans w (result task) @
         [case os_Rename e (destination task @ ''.down'') (destination task) fs3 of
            Inl err \<Rightarrow> Some err | Inr fs4 \<Rightarrow> None]"
    if "copied e task w = Some (fs3, cw)" for fs3 cw
    using delivered_commit(1)[OF that] assms by simp
qed

section \<open>Every path through the protocol\<close>

lemma task_cases [case_names transport status mkdir create copy verify rename success]:
  fixes e task w
  defines "t \<equiv> destination task @ ''.down''"
  defines "wr \<equiv> (if Size (expected task) \<noteq> - 1
                  then MultiWriter [OutFile (destination task @ ''.down''), Checksummer]
                  else OutFile (destination task @ ''.down''))"
  obtains
    reason where "http_Get e (url task) = Inl reason"
      "handleTask_run e task w =
         (send (result task) (Some (UrlError (url task) reason)) (started task w), NewChecksumWriter)"
  | resp where "http_Get e (url task) = Inr resp" "StatusCode resp < 200 \<or> StatusCode resp > 299"
      "handleTask_run e task w =
         (send (result task)
            (Some (Errorf ''HTTP code %d while fetching %s''
                     [IntArg (StatusCode resp), StrArg (url task)])) (started task w),
          NewChecksumWriter)"
  | resp err where "response_ok e task = Some resp"
      "os_MkdirAll e (filepath_Dir (destination task)) (files w) = Inl err"
      "handleTask_run e task w = (send (result task) (Some err) (started task w), NewChecksumWriter)"
  | resp fs1 err where "response_ok e task = Some resp" "made_dirs e task w = Some fs1"
      "os_Create e t fs1 = Inl err"
      "handleTask_run e task w =
         (send (result task) (Some err) ((started task w)\<lparr>files := fs1\<rparr>), NewChecksumWriter)"
  | resp fs1 fs2 err fs3 cw where "response_ok e task = Some resp" "made_dirs e task w = Some fs1"
      "created e task w = Some fs2"
      "io_Copy e wr (chunks (Body resp)) (read_err (Body resp)) (fs2, NewChecksumWriter) =
         (Some err, (fs3, cw))"
      "handleTask_run e task w =
         (send (result task) (Some err) ((started task w)\<lparr>files := os_Remove t fs3\<rparr>), cw)"
  | resp fs1 fs2 fs3 cw err where "response_ok e task = Some resp" "made_dirs e task w = Some fs1"
      "created e task w = Some fs2"
      "io_Copy e wr (chunks (Body resp)) (read_err (Body resp)) (fs2, NewChecksumWriter) =
         (None, (fs3, cw))"
      "copied e task w = Some (fs3, cw)" "Size (expected task) \<noteq> - 1"
      "mismatch (url task) (Sum e cw) (expected task) = Some err"
      "handleTask_run e task w =
         (send (result task) (Some err) ((started task w)\<lparr>files := os_Remove t fs3\<rparr>), cw)"
  | resp fs1 fs2 fs3 cw err where "response_ok e task = Some resp" "made_dirs e task w = Some fs1"
      "created e task w = Some fs2"
      "io_Copy e wr (chunks (Body resp)) (read_err (Body resp)) (fs2, NewChecksumWriter) =
         (None, (fs3, cw))"
      "copied e task w = Some (fs3, cw)"
      "Size (expected task) = - 1 \<or> mismatch (url task) (Sum e cw) (expected task) = None"
      "os_Rename e t (destination task) fs3 = Inl err"
      "handleTask_run e task w =
         (send (result task) (Some err) ((started task w)\<lparr>files := os_Remove t fs3\<rparr>), cw)"
  | resp fs1 fs2 fs3 cw fs4 where "response_ok e task = Some resp" "made_dirs e task w = Some fs1"
      "created e task w = Some fs2"
      "io_Copy e wr (chunks (Body resp)) (read_err (Body resp)) (fs2, NewChecksumWriter) =
         (None, (fs3, cw))"
      "copied e task w = Some (fs3, cw)"
      "Size (expected task) = - 1 \<or> mismatch (url task) (Sum e cw) (expected task) = None"
      "os_Rename e t (destination task) fs3 = Inr fs4"
      "handleTask_run e task w = (send (result task) None ((started task w)\<lparr>files := fs4\<rparr>), cw)"
proof (cases "http_Get e (url task)")
  case (Inl reason)
  then show ?thesis using that(1) run_no_response by blast
next
  case (Inr resp)
  note g = this
  show ?thesis
  proof (cases "StatusCode resp < 200 \<or> StatusCode resp > 299")
    case True
    then show ?thesis using that(2) g run_bad_status by blast
  next
    case False
    with g have r: "response_ok e task = Some resp" by (simp add: response_ok_def)
    show ?thesis
    proof (cases "os_MkdirAll e (filepath_Dir (destination task)) (files w)")
      case (Inl err)
      then show ?thesis using that(3) r run_no_dirs by blast
    next
      case (Inr fs1)
      with r have m: "made_dirs e task w = Some fs1" by (simp add: made_dirs_def)
      show ?thesis
      proof (cases "os_Create e t fs1")
        case (Inl err)
        then show ?thesis using that(4)[OF r m] run_not_created[OF m] by (simp add: t_def)
      next
        case (Inr fs2)
        with m have c: "created e task w = Some fs2" by (simp add: created_def t_def)
        obtain x fs3 cw where i:
          "io_Copy e wr (chunks (Body resp)) (read_err (Body resp)) (fs2, NewChecksumWriter) =
             (x, (fs3, cw))"
          by (metis surj_pair)
        show ?thesis
        proof (cases x)
          case (Some err)
          with i have i': "io_Copy e wr (chunks (Body resp)) (read_err (Body resp)) (fs2, NewChecksumWriter) =
             (Some err, (fs3, cw))" by simp
          from run_not_copied[OF c r i'[unfolded wr_def]] that(5)[OF r m c i'] show ?thesis
            by (simp add: t_def)
        next
          case None
          with i have i': "io_Copy e wr (chunks (Body resp)) (read_err (Body resp)) (fs2, NewChecksumWriter) =
             (None, (fs3, cw))" by simp
          have p: "copied e task w = Some (fs3, cw)"
            using r c i' by (simp add: copied_def wr_def)
          note run = run_copied[OF p]
          show ?thesis
          proof (cases "Size (expected task) \<noteq> - 1 \<and>
                        mismatch (url task) (Sum e cw) (expected task) \<noteq> None")
            case True
            then obtain err where v: "Size (expected task) \<noteq> - 1"
              "mismatch (url task) (Sum e cw) (expected task) = Some err" by auto
            from that(6)[OF r m c i' p v] run v show ?thesis by (simp add: t_def)
          next
            case False
            then have v: "Size (expected task) = - 1 \<or> mismatch (url task) (Sum e cw) (expected task) = None"
              by auto
            then have v': "(if Size (expected task) \<noteq> - 1
                            then mismatch (url task) (Sum e cw) (expected task) else None) = None"
              by auto
            show ?thesis
            proof (cases "os_Rename e t (destination task) fs3")
              case (Inl err)
              from that(7)[OF r m c i' p v Inl] run Inl show ?thesis by (simp add: v' t_def)
            next
              case (Inr fs4)
              from that(8)[OF r m c i' p v Inr] run Inr show ?thesis by (simp add: v' t_def)
            qed
          qed
        qed
      qed
    qed
  qed
qed

section \<open>The file system along the protocol\<close>

lemma io_Copy_content:
  assumes "io_Copy e wr cs fin (fs, cw) = (None, (fs', cw'))"
    and "wr = OutFile t \<or> wr = MultiWriter [OutFile t, Checksummer]"
    and "resolve t \<noteq> []"
    and "lookup fs (resolve t) = Some (File c)"
  shows "lookup fs' (resolve t) = Some (File (c @ concat cs))"
  using assms
proof (induction cs arbitrary: fs cw c)
  case Nil
  then show ?case by simp
next
  case (Cons b cs)
  show ?case
  proof (cases "b = []")
    case True
    with Cons.prems have "io_Copy e wr cs fin (fs, cw) = (None, (fs', cw'))" by simp
    from Cons.IH[OF this Cons.prems(2,3,4)] True show ?thesis by simp
  next
    case False
    obtain r1 fs1 where fw: "file_Write e t b fs = (r1, fs1)" by (cases "file_Write e t b fs")
    have f: "lookup fs1 (resolve t) = Some (File (if r1 = None then c @ b else c))"
      using file_Write_file[OF fw Cons.prems(3,4)] .
    show ?thesis
    proof (cases r1)
      case None
      then obtain cw1 where "io_Copy e wr cs fin (fs1, cw1) = (None, (fs', cw'))"
        using Cons.prems(1,2) False fw by (auto simp: Write_tee Write_OutFile simp del: Write.simps)
      from Cons.IH[OF this Cons.prems(2,3)] f None show ?thesis by simp
    next
      case (Some err)
      then show ?thesis using Cons.prems(1,2) False fw
        by (auto simp: Write_tee Write_OutFile simp del: Write.simps)
    qed
  qed
qed

lemma writer_cases:
  "(if Size (expected task) \<noteq> - 1
    then MultiWriter [OutFile (destination task @ ''.down''), Checksummer]
    else OutFile (destination task @ ''.down'')) = OutFile (destination task @ ''.down'') \<or>
   (if Size (expected task) \<noteq> - 1
    then MultiWriter [OutFile (destination task @ ''.down''), Checksummer]
    else OutFile (destination task @ ''.down'')) =
     MultiWriter [OutFile (destination task @ ''.down''), Checksummer]"
  by simp

text \<open>The file system after the copy: only the temporary file differs from the file
  system after the parent directory step, and it is a file.\<close>

lemma after_copy:
  assumes "made_dirs e task w = Some fs1" and "created e task w = Some fs2"
    and "io_Copy e (if Size (expected task) \<noteq> - 1
                    then MultiWriter [OutFile (destination task @ ''.down''), Checksummer]
                    else OutFile (destination task @ ''.down''))
           cs fin (fs2, NewChecksumWriter) = (x, (fs3, cw))"
  shows "\<exists>c. lookup fs3 (resolve (destination task @ ''.down'')) = Some (File c)"
    and "q \<noteq> resolve (destination task @ ''.down'') \<Longrightarrow> lookup fs3 q = lookup fs1 q"
    and "lookup fs1 (resolve (destination task @ ''.down'')) \<noteq> Some Directory"
    and "x = None \<Longrightarrow> lookup fs3 (resolve (destination task @ ''.down'')) = Some (File (concat cs))"
proof -
  from created_D[OF assms(2)] assms(1) have
    c: "os_Create e (destination task @ ''.down'') fs1 = Inr fs2" by auto
  note l2 = Create_lookup[OF c temp_nonempty]
  note f = io_Copy_frame[OF assms(3) writer_cases temp_nonempty created_file[OF assms(2)]]
  from f show "\<exists>c. lookup fs3 (resolve (destination task @ ''.down'')) = Some (File c)" by blast
  show "lookup fs3 q = lookup fs1 q" if "q \<noteq> resolve (destination task @ ''.down'')"
    using f l2 that by simp
  show "lookup fs1 (resolve (destination task @ ''.down'')) \<noteq> Some Directory"
    by (rule Create_not_dir[OF c])
  show "lookup fs3 (resolve (destination task @ ''.down'')) = Some (File (concat cs))" if "x = None"
    using io_Copy_content[OF assms(3)[unfolded that] writer_cases temp_nonempty created_file[OF assms(2)]]
    by simp
qed

lemma after_remove:
  assumes "made_dirs e task w = Some fs1" and "created e task w = Some fs2"
    and "io_Copy e (if Size (expected task) \<noteq> - 1
                    then MultiWriter [OutFile (destination task @ ''.down''), Checksummer]
                    else OutFile (destination task @ ''.down''))
           cs fin (fs2, NewChecksumWriter) = (x, (fs3, cw))"
  shows "lookup (os_Remove (destination task @ ''.down'') fs3) q =
           (if q = resolve (destination task @ ''.down'') then None else lookup fs1 q)"
proof -
  from after_copy(1)[OF assms] obtain c where
    c: "lookup fs3 (resolve (destination task @ ''.down'')) = Some (File c)" by blast
  show ?thesis
    using Remove_file[OF c not_dirlike_down temp_nonempty] after_copy(2)[OF assms] by simp
qed

lemma dest_not_temp: "resolve d \<noteq> resolve (d @ ''.down'')"
proof (cases "dirlike d")
  case True
  then have "resolve d = resolve (filepath_Dir d) \<or> resolve d = butlast (resolve (filepath_Dir d))"
    using resolve_split[of d] by (auto simp: dirlike_def push_def)
  then have "length (resolve d) \<le> length (resolve (filepath_Dir d))" by auto
  then show ?thesis by (auto simp: resolve_down)
next
  case False
  then show ?thesis by (simp add: resolve_file resolve_down)
qed



lemma temp_not_prefix: "\<not> prefix (resolve (d @ ''.down'')) (resolve (filepath_Dir d))"
  by (simp add: resolve_down)

lemma after_rename:
  assumes "made_dirs e task w = Some fs1" and "created e task w = Some fs2"
    and "io_Copy e (if Size (expected task) \<noteq> - 1
                    then MultiWriter [OutFile (destination task @ ''.down''), Checksummer]
                    else OutFile (destination task @ ''.down''))
           cs fin (fs2, NewChecksumWriter) = (None, (fs3, cw))"
    and "os_Rename e (destination task @ ''.down'') (destination task) fs3 = Inr fs4"
  shows "lookup fs4 q =
           (if q = resolve (destination task) then Some (File (concat cs))
            else if q = resolve (destination task @ ''.down'') then None else lookup fs1 q)"
    and "lookup fs1 (resolve (destination task)) \<noteq> Some Directory"
proof -
  have c: "lookup fs3 (resolve (destination task @ ''.down'')) = Some (File (concat cs))"
    using after_copy(4)[OF assms(1,2,3)] by simp
  have nd: "lookup fs3 (resolve (destination task)) \<noteq> Some Directory"
    using assms(4) by (auto simp: os_Rename_def split: option.splits if_splits)
  then have ne: "resolve (destination task) \<noteq> []" by (auto simp: lookup_def)
  from nd show "lookup fs1 (resolve (destination task)) \<noteq> Some Directory"
    using after_copy(2)[OF assms(1,2,3) dest_not_temp] by simp
  show "lookup fs4 q =
           (if q = resolve (destination task) then Some (File (concat cs))
            else if q = resolve (destination task @ ''.down'') then None else lookup fs1 q)"
    using Rename_file[OF assms(4) c temp_nonempty ne] after_copy(2)[OF assms(1,2,3)] by simp
qed

section \<open>Status errors, directories and the destination\<close>

lemma outcome_of_run:
  assumes "handleTask_run e task w = (send (result task) x w', cw)" and "chans w' = chans w"
  shows "chans (handleTask e task w) (result task) = chans w (result task) @ [x]"
    and "files (handleTask e task w) = files w'"
  using assms by (simp_all add: handleTask_def)

lemma mismatch_not_http:
  "mismatch u a x = Some err \<Longrightarrow> err \<noteq> Errorf ''HTTP code %d while fetching %s'' args"
  by (auto simp: mismatch_def split: if_splits)

text \<open>Claim C5. When the GET returns a response, the task delivers the HTTP status error
  (carrying the status code and the URL) exactly when the status code is below 200 or
  above 299; in that case no temporary file is created and the file system is as it
  was.\<close>

theorem http_status_error:
  assumes "http_Get e (url task) = Inr resp"
  shows "((chans (handleTask e task w) (result task) =
            chans w (result task) @
              [Some (Errorf ''HTTP code %d while fetching %s''
                       [IntArg (StatusCode resp), StrArg (url task)])]) =
          (StatusCode resp < 200 \<or> 299 < StatusCode resp)) \<and>
         (StatusCode resp < 200 \<or> 299 < StatusCode resp \<longrightarrow>
            files (handleTask e task w) = files w \<and> created e task w = None)"
proof -
  let ?H = "Some (Errorf ''HTTP code %d while fetching %s''
                       [IntArg (StatusCode resp), StrArg (url task)])"
  have ok: "\<not> (StatusCode resp < 200 \<or> 299 < StatusCode resp)"
    if "response_ok e task = Some r" for r
    using response_ok_D[OF that] assms by auto
  have other: ?thesis
    if "response_ok e task = Some r"
      "handleTask_run e task w = (send (result task) x w', cw)" "chans w' = chans w" "x \<noteq> ?H"
    for r x w' cw
    using outcome_of_run(1)[OF that(2,3)] ok[OF that(1)] that(4) by simp
  show ?thesis
  proof (cases rule: task_cases[of e task w])
    case (transport reason)
    with assms show ?thesis by simp
  next
    case (status resp')
    with assms have r: "resp' = resp" by simp
    have n: "created e task w = None"
      using status(1,2) by (simp add: created_def made_dirs_def response_ok_def)
    from outcome_of_run[OF status(3)] status(2) n show ?thesis by (simp add: r)
  next
    case (mkdir r err)
    from MkdirAll_error[OF mkdir(2)] show ?thesis
      by (intro other[OF mkdir(1,3)]) auto
  next
    case (create r fs1 err)
    from Create_error[OF create(3)] show ?thesis
      by (intro other[OF create(1,4)]) auto
  next
    case (copy r fs1 fs2 err fs3 cw)
    from io_Copy_error[OF copy(4) writer_cases] show ?thesis
      by (intro other[OF copy(1,5)]) auto
  next
    case (verify r fs1 fs2 fs3 cw err)
    from mismatch_not_http[OF verify(7)] show ?thesis
      by (intro other[OF verify(1,8)]) auto
  next
    case (rename r fs1 fs2 fs3 cw err)
    from Rename_error[OF rename(7)] show ?thesis
      by (intro other[OF rename(1,8)]) auto
  next
    case (success r fs1 fs2 fs3 cw fs4)
    show ?thesis
      by (intro other[OF success(1,8)]) auto
  qed
qed

text \<open>Claim C10. When the parent directory step has succeeded, every ancestor directory
  of the destination exists after it, and every directory that exists after it still
  exists when the task has ended; when the task ends with an error, the file system
  differs from the one after the parent directory step at most at the temporary file.\<close>

theorem parent_directories_remain:
  assumes "made_dirs e task w = Some fs1"
  shows "(\<forall>q. prefix q (resolve (filepath_Dir (destination task))) \<longrightarrow>
            lookup fs1 q = Some Directory) \<and>
         (\<forall>q. lookup fs1 q = Some Directory \<longrightarrow>
            lookup (files (handleTask e task w)) q = Some Directory) \<and>
         (\<forall>err q. chans (handleTask e task w) (result task) = chans w (result task) @ [Some err] \<and>
            q \<noteq> resolve (destination task @ ''.down'') \<longrightarrow>
            lookup (files (handleTask e task w)) q = lookup fs1 q)"
proof -
  from made_dirs_D[OF assms] obtain resp where
    r: "response_ok e task = Some resp" and
    d: "os_MkdirAll e (filepath_Dir (destination task)) (files w) = Inr fs1" by blast
  have dirs: "\<forall>q. prefix q (resolve (filepath_Dir (destination task))) \<longrightarrow>
            lookup fs1 q = Some Directory"
    using MkdirAll_dirs[OF d] by blast
  have rest: "(\<forall>q. lookup fs1 q = Some Directory \<longrightarrow>
            lookup (files (handleTask e task w)) q = Some Directory) \<and>
         (\<forall>err q. chans (handleTask e task w) (result task) = chans w (result task) @ [Some err] \<and>
            q \<noteq> resolve (destination task @ ''.down'') \<longrightarrow>
            lookup (files (handleTask e task w)) q = lookup fs1 q)"
  proof (cases rule: task_cases[of e task w])
    case (transport reason)
    with r show ?thesis by (simp add: response_ok_def)
  next
    case (status resp')
    with r show ?thesis by (auto simp: response_ok_def)
  next
    case (mkdir r err)
    with d show ?thesis by simp
  next
    case (create r fs1' err)
    with assms have "fs1' = fs1" by simp
    with outcome_of_run[OF create(4)] show ?thesis by simp
  next
    case (copy r fs1' fs2 err fs3 cw)
    with assms have e1: "fs1' = fs1" by simp
    note o = outcome_of_run[OF copy(5)]
    note a = after_remove[OF copy(2,3,4)] after_copy(3)[OF copy(2,3,4)]
    show ?thesis using o a e1 by auto
  next
    case (verify r fs1' fs2 fs3 cw err)
    with assms have e1: "fs1' = fs1" by simp
    note o = outcome_of_run[OF verify(8)]
    note a = after_remove[OF verify(2,3,4)] after_copy(3)[OF verify(2,3,4)]
    show ?thesis using o a e1 by auto
  next
    case (rename r fs1' fs2 fs3 cw err)
    with assms have e1: "fs1' = fs1" by simp
    note o = outcome_of_run[OF rename(8)]
    note a = after_remove[OF rename(2,3,4)] after_copy(3)[OF rename(2,3,4)]
    show ?thesis using o a e1 by auto
  next
    case (success r fs1' fs2 fs3 cw fs4)
    with assms have e1: "fs1' = fs1" by simp
    note o = outcome_of_run[OF success(8)]
    note a = after_rename[OF success(2,3,4,7)] after_copy(3)[OF success(2,3,4)]
    show ?thesis using o a e1 by auto
  qed
  from dirs rest show ?thesis by blast
qed


section \<open>Instances\<close>

theorem verification_skipped_witness:
  "Size (expected (demo_task ''http://repo/Packages'' ''pool/main/Packages''
       \<lparr>Size = - 1, MD5 = ''deadbeef'', SHA1 = [], SHA256 = []\<rparr>)) = - 1 \<and>
   snd (handleTask_run demo_env (demo_task ''http://repo/Packages'' ''pool/main/Packages''
       \<lparr>Size = - 1, MD5 = ''deadbeef'', SHA1 = [], SHA256 = []\<rparr>) demo_world) = [] \<and>
   chans (handleTask demo_env (demo_task ''http://repo/Packages'' ''pool/main/Packages''
       \<lparr>Size = - 1, MD5 = ''deadbeef'', SHA1 = [], SHA256 = []\<rparr>) demo_world) 0 = [None]"
proof -
  let ?t = "demo_task ''http://repo/Packages'' ''pool/main/Packages''
       \<lparr>Size = - 1, MD5 = ''deadbeef'', SHA1 = [], SHA256 = []\<rparr>"
  let ?fs = "[([''tmp''], Directory), ([''pool''], Directory), ([''pool'', ''main''], Directory),
            ([''pool'', ''main'', ''Packages.down''], File [1, 2, 3])]"
  have s: "Size (expected ?t) = - 1" by (simp add: demo_task_def)
  have c: "copied demo_env ?t demo_world = Some (?fs, [])" by code_simp
  have r: "os_Rename demo_env (destination ?t @ ''.down'') (destination ?t) ?fs =
     Inr [([''tmp''], Directory), ([''pool''], Directory), ([''pool'', ''main''], Directory),
          ([''pool'', ''main'', ''Packages''], File [1, 2, 3])]"
    by code_simp
  from verification_skipped[OF s, of demo_env demo_world] c
  have "snd (handleTask_run demo_env ?t demo_world) = NewChecksumWriter"
    and "chans (handleTask demo_env ?t demo_world) (result ?t) = chans demo_world (result ?t) @
         [case os_Rename demo_env (destination ?t @ ''.down'') (destination ?t) ?fs of
            Inl err \<Rightarrow> Some err | Inr fs4 \<Rightarrow> None]"
    by blast+
  then show ?thesis unfolding r using s
    by (simp add: NewChecksumWriter_def demo_task_def demo_world_def)
qed

theorem http_status_error_witness:
  "http_Get demo_env (url (demo_task ''http://repo/gone'' ''pool/gone''
       \<lparr>Size = - 1, MD5 = [], SHA1 = [], SHA256 = []\<rparr>)) =
     Inr \<lparr>StatusCode = 404, Body = \<lparr>chunks = [[4, 0, 4]], read_err = None\<rparr>\<rparr> \<and>
   chans (handleTask demo_env (demo_task ''http://repo/gone'' ''pool/gone''
       \<lparr>Size = - 1, MD5 = [], SHA1 = [], SHA256 = []\<rparr>) demo_world) 0 =
     [Some (Errorf ''HTTP code %d while fetching %s'' [IntArg 404, StrArg ''http://repo/gone''])] \<and>
   files (handleTask demo_env (demo_task ''http://repo/gone'' ''pool/gone''
       \<lparr>Size = - 1, MD5 = [], SHA1 = [], SHA256 = []\<rparr>) demo_world) = [([''tmp''], Directory)]"
proof -
  let ?t = "demo_task ''http://repo/gone'' ''pool/gone'' \<lparr>Size = - 1, MD5 = [], SHA1 = [], SHA256 = []\<rparr>"
  have g: "http_Get demo_env (url ?t) =
     Inr \<lparr>StatusCode = 404, Body = \<lparr>chunks = [[4, 0, 4]], read_err = None\<rparr>\<rparr>"
    by (simp add: demo_env_def demo_task_def)
  from http_status_error[OF g, of demo_world] g show ?thesis
    by (simp add: demo_task_def demo_world_def)
qed

theorem parent_directories_remain_witness:
  "made_dirs demo_env (demo_task ''http://repo/Packages'' ''pool/main/Packages''
       \<lparr>Size = 4, MD5 = [], SHA1 = [], SHA256 = []\<rparr>) demo_world =
     Some [([''tmp''], Directory), ([''pool''], Directory), ([''pool'', ''main''], Directory)] \<and>
   lookup (files demo_world) [''pool'', ''main''] = None \<and>
   lookup (files (handleTask demo_env (demo_task ''http://repo/Packages'' ''pool/main/Packages''
       \<lparr>Size = 4, MD5 = [], SHA1 = [], SHA256 = []\<rparr>) demo_world)) [''pool'', ''main''] =
     Some Directory"
proof -
  let ?t = "demo_task ''http://repo/Packages'' ''pool/main/Packages''
       \<lparr>Size = 4, MD5 = [], SHA1 = [], SHA256 = []\<rparr>"
  let ?fs1 = "[([''tmp''], Directory), ([''pool''], Directory), ([''pool'', ''main''], Directory)]"
  have m: "made_dirs demo_env ?t demo_world = Some ?fs1" by code_simp
  have b: "lookup (files demo_world) [''pool'', ''main''] = None"
    by (simp add: demo_world_def lookup_def)
  have l: "lookup ?fs1 [''pool'', ''main''] = Some Directory" by (simp add: lookup_def)
  from parent_directories_remain[OF m] l
  have "lookup (files (handleTask demo_env ?t demo_world)) [''pool'', ''main''] = Some Directory"
    by blast
  with m b show ?thesis by simp
qed



section \<open>Submitting a task\<close>

lemma serve_handleTask:
  "serve e u dst res w =
     handleTask e \<lparr>url = u, destination = dst, result = res,
                    expected = \<lparr>Size = - 1, MD5 = [], SHA1 = [], SHA256 = []\<rparr>\<rparr> w"
  by (simp add: serve_def Download_def DownloadWithChecksum_def)

text \<open>Claim C6. \<^verbatim>\<open>Download\<close> is \<^verbatim>\<open>DownloadWithChecksum\<close> with the expected checksums
  \<^verbatim>\<open>ChecksumInfo{Size: -1}\<close>: both block on a full queue and otherwise append the same task
  to the queue, and a worker handles that task as one without verification.\<close>

theorem Download_without_checksum:
  "Download d u dst res =
     DownloadWithChecksum d u dst res \<lparr>Size = - 1, MD5 = [], SHA1 = [], SHA256 = []\<rparr> \<and>
   (Download d u dst res = None) = (1000 \<le> length (queue d)) \<and>
   (\<forall>d'. Download d u dst res = Some d' \<longrightarrow>
      queue d' = queue d @ [\<lparr>url = u, destination = dst, result = res,
                              expected = \<lparr>Size = - 1, MD5 = [], SHA1 = [], SHA256 = []\<rparr>\<rparr>] \<and>
      threads d' = threads d) \<and>
   serve e u dst res w =
     handleTask e \<lparr>url = u, destination = dst, result = res,
                    expected = \<lparr>Size = - 1, MD5 = [], SHA1 = [], SHA256 = []\<rparr>\<rparr> w"
  by (auto simp: serve_handleTask Download_def DownloadWithChecksum_def)

theorem Download_without_checksum_witness:
  "Download \<lparr>queue = [], threads = 2\<rparr> ''http://repo/Packages'' ''pool/Packages'' 0 =
     Some \<lparr>queue = [\<lparr>url = ''http://repo/Packages'', destination = ''pool/Packages'', result = 0,
                      expected = \<lparr>Size = - 1, MD5 = [], SHA1 = [], SHA256 = []\<rparr>\<rparr>],
           threads = 2\<rparr> \<and>
   DownloadWithChecksum \<lparr>queue = [], threads = 2\<rparr> ''http://repo/Packages'' ''pool/Packages'' 0
       \<lparr>Size = - 1, MD5 = [], SHA1 = [], SHA256 = []\<rparr> =
     Some \<lparr>queue = [\<lparr>url = ''http://repo/Packages'', destination = ''pool/Packages'', result = 0,
                      expected = \<lparr>Size = - 1, MD5 = [], SHA1 = [], SHA256 = []\<rparr>\<rparr>],
           threads = 2\<rparr>"
proof -
  have "DownloadWithChecksum \<lparr>queue = [], threads = 2\<rparr> ''http://repo/Packages'' ''pool/Packages'' 0
       \<lparr>Size = - 1, MD5 = [], SHA1 = [], SHA256 = []\<rparr> =
     Some \<lparr>queue = [\<lparr>url = ''http://repo/Packages'', destination = ''pool/Packages'', result = 0,
                      expected = \<lparr>Size = - 1, MD5 = [], SHA1 = [], SHA256 = []\<rparr>\<rparr>],
           threads = 2\<rparr>"
    by (simp add: DownloadWithChecksum_def)
  with Download_without_checksum[of "\<lparr>queue = [], threads = 2\<rparr>" "''http://repo/Packages''"
      "''pool/Packages''" 0 demo_env demo_world]
  show ?thesis by simp
qed

section \<open>Downloads to a temporary file: properties\<close>

lemma handleTask_requests: "requests (handleTask e task w) = requests w @ [url task]"
  by (cases rule: task_cases[of e task w]) (simp_all add: handleTask_def)

lemma committed_file:
  assumes "chans (handleTask e task w) (result task) = chans w (result task) @ [None]"
  shows "\<exists>resp. http_Get e (url task) = Inr resp \<and>
           lookup (files (handleTask e task w)) (resolve (destination task)) =
             Some (File (concat (chunks (Body resp))))"
proof -
  have no: False
    if "handleTask_run e task w = (send (result task) (Some err) w', cw)" "chans w' = chans w"
    for err w' cw
    using outcome_of_run(1)[OF that] assms by simp
  show ?thesis
  proof (cases rule: task_cases[of e task w])
    case (success r fs1 fs2 fs3 cw fs4)
    note o = outcome_of_run[OF success(8)]
    note a = after_rename(1)[OF success(2,3,4,7)]
    from response_ok_D[OF success(1)] have g: "http_Get e (url task) = Inr r" by simp
    show ?thesis using o a g by simp
  qed (auto dest: no)
qed

lemma Mkdir_fresh:
  assumes "os_Mkdir e name fs = Inr fs'"
  shows "lookup fs (resolve name) = None" "resolve name \<noteq> []"
    "lookup fs' q = (if q = resolve name then Some Directory else lookup fs q)"
proof -
  from assms show n: "lookup fs (resolve name) = None"
    by (auto simp: os_Mkdir_def split: option.splits node.splits)
  then show ne: "resolve name \<noteq> []" by (auto simp: lookup_def)
  from assms have "fs' = AList.update (resolve name) Directory fs"
    by (auto simp: os_Mkdir_def split: option.splits node.splits)
  then show "lookup fs' q = (if q = resolve name then Some Directory else lookup fs q)"
    using ne by (simp add: lookup_update)
qed

lemma tempdir_try_fresh:
  assumes "tempdir_try e dir pfx i n fs = Inr (name, fs')"
  shows "lookup fs (resolve name) = None \<and> resolve name \<noteq> [] \<and>
         (\<forall>q. lookup fs' q = (if q = resolve name then Some Directory else lookup fs q))"
  using assms
proof (induction n arbitrary: i)
  case 0
  then show ?case by simp
next
  case (Suc n)
  show ?case
  proof (cases "os_Mkdir e (filepath_Join dir (pfx @ nextSuffix e i)) fs")
    case (Inl err)
    with Suc.prems have "tempdir_try e dir pfx (Suc i) n fs = Inr (name, fs')"
      by (simp split: if_splits)
    then show ?thesis by (rule Suc.IH)
  next
    case (Inr fs1)
    with Suc.prems have "name = filepath_Join dir (pfx @ nextSuffix e i)" "fs' = fs1" by simp_all
    with Mkdir_fresh[OF Inr] show ?thesis by simp
  qed
qed

lemma buffer_not_dirlike: "\<not> dirlike (filepath_Join tempdir ''buffer'')"
  by (simp add: dirlike_def last_elem_def filepath_Join_def)

lemma Open_file:
  "lookup fs (resolve name) = Some (File c) \<Longrightarrow> \<not> dirlike name \<Longrightarrow>
   fault e (SysOpen name) = None \<Longrightarrow> os_Open e name fs = Inr (File c)"
  by (simp add: os_Open_def)

lemma DownloadTemp_received:
  assumes "ioutil_TempDir e (os_TempDir e) ''aptly'' (files w) = Inr (tempdir, fs1)"
    and "recv (nchans w)
           (downloader u (filepath_Join tempdir ''buffer'') (nchans w)
              (snd (make_chan (w\<lparr>files := fs1\<rparr>)))) = Some (x, w3)"
  shows "DownloadTemp e downloader u w =
           Some (case x of
                   Some err \<Rightarrow> Inl err
                 | None \<Rightarrow> os_Open e (filepath_Join tempdir ''buffer'') (files w3),
                 w3\<lparr>files := os_RemoveAll tempdir (files w3)\<rparr>)"
proof -
  have m: "make_chan (w\<lparr>files := fs1\<rparr>) = (nchans w, snd (make_chan (w\<lparr>files := fs1\<rparr>)))"
    by (simp add: make_chan_def)
  show ?thesis
  proof (cases x)
    case None
    show ?thesis
      unfolding DownloadTemp_def assms(1) Let_def
      apply (simp only: sum.case prod.case)
      apply (subst m)
      apply (simp only: prod.case assms(2) None option.case)
      apply (cases "os_Open e (filepath_Join tempdir ''buffer'') (files w3)")
       apply simp_all
      done
  next
    case (Some err)
    show ?thesis
      unfolding DownloadTemp_def assms(1) Let_def
      apply (simp only: sum.case prod.case)
      apply (subst m)
      apply (simp only: prod.case assms(2) Some option.case)
      done
  qed
qed

lemma DownloadTemp_removes:
  assumes "ioutil_TempDir e (os_TempDir e) ''aptly'' (files w) = Inr (tempdir, fs1)"
    and "DownloadTemp e downloader u w = Some (r, w')"
  shows "\<exists>fs3. files w' = os_RemoveAll tempdir fs3"
proof -
  obtain ch w1 where m: "make_chan (w\<lparr>files := fs1\<rparr>) = (ch, w1)" by (metis surj_pair)
  show ?thesis
  proof (cases "recv ch (downloader u (filepath_Join tempdir ''buffer'') ch w1)")
    case None
    with assms(2) show ?thesis by (simp add: DownloadTemp_def assms(1) m)
  next
    case (Some p)
    obtain x w3 where p: "p = (x, w3)" by (cases p)
    show ?thesis
    proof (cases x)
      case None
      with assms(2) Some p show ?thesis
        by (cases "os_Open e (filepath_Join tempdir ''buffer'') (files w3)")
           (auto simp: DownloadTemp_def assms(1) m)
    next
      case (Some err)
      with assms(2) \<open>recv ch (downloader u (filepath_Join tempdir ''buffer'') ch w1) = Some p\<close> p
      show ?thesis by (auto simp: DownloadTemp_def assms(1) m)
    qed
  qed
qed

lemma DownloadTemp_serve:
  assumes t: "ioutil_TempDir e (os_TempDir e) ''aptly'' (files w) = Inr (tempdir, fs1)"
  shows "\<exists>x w2 w'.
         w2 = handleTask e
                \<lparr>url = u, destination = filepath_Join tempdir ''buffer'', result = nchans w,
                   expected = \<lparr>Size = - 1, MD5 = [], SHA1 = [], SHA256 = []\<rparr>\<rparr>
                (snd (make_chan (w\<lparr>files := fs1\<rparr>))) \<and>
         chans w2 (nchans w) = [x] \<and>
         requests w2 = requests w @ [u] \<and>
         requests w' = requests w @ [u] \<and>
         DownloadTemp e (serve e) u w =
           Some (case x of
                   Some err \<Rightarrow> Inl err
                 | None \<Rightarrow> os_Open e (filepath_Join tempdir ''buffer'') (files w2), w') \<and>
         (x = None \<longrightarrow>
            (\<exists>resp. http_Get e u = Inr resp \<and>
               lookup (files w2) (resolve (filepath_Join tempdir ''buffer'')) =
                 Some (File (concat (chunks (Body resp)))) \<and>
               (fault e (SysOpen (filepath_Join tempdir ''buffer'')) = None \<longrightarrow>
                  os_Open e (filepath_Join tempdir ''buffer'') (files w2) =
                    Inr (File (concat (chunks (Body resp)))))))"
proof -
  define buffer where "buffer = filepath_Join tempdir ''buffer''"
  define task where "task = \<lparr>url = u, destination = buffer, result = nchans w,
                 expected = \<lparr>Size = - 1, MD5 = [], SHA1 = [], SHA256 = []\<rparr>\<rparr>"
  define w1 where "w1 = snd (make_chan (w\<lparr>files := fs1\<rparr>))"
  define w2 where "w2 = handleTask e task w1"
  have tk: "url task = u" "destination task = buffer" "result task = nchans w"
    by (simp_all add: task_def)
  have e1: "chans w1 (nchans w) = []" "requests w1 = requests w"
    by (simp_all add: w1_def make_chan_def)
  from handleTask_delivers[of e task w1] obtain x where
    "chans w2 = (chans w1)(nchans w := chans w1 (nchans w) @ [x])"
    unfolding w2_def tk by blast
  then have x: "chans w2 (nchans w) = [x]" using e1 by simp
  have rq: "requests w2 = requests w @ [u]"
    using handleTask_requests[of e task w1] e1 by (simp add: w2_def tk)
  define w3 where "w3 = w2\<lparr>chans := (chans w2)(nchans w := [])\<rparr>"
  have f3: "files w3 = files w2" by (simp add: w3_def)
  have rc: "recv (nchans w) (serve e u buffer (nchans w) w1) = Some (x, w3)"
    using x by (simp add: recv_def serve_handleTask w2_def task_def w3_def)
  note dt = DownloadTemp_received[where downloader = "serve e" and u = u,
      OF t rc[unfolded buffer_def w1_def], folded buffer_def, unfolded f3]
  have ok: "\<exists>resp. http_Get e u = Inr resp \<and>
               lookup (files w2) (resolve buffer) = Some (File (concat (chunks (Body resp)))) \<and>
               (fault e (SysOpen buffer) = None \<longrightarrow>
                  os_Open e buffer (files w2) = Inr (File (concat (chunks (Body resp)))))"
    if "x = None"
  proof -
    have "chans (handleTask e task w1) (result task) = chans w1 (result task) @ [None]"
      using x that e1 by (simp add: tk w2_def)
    from committed_file[OF this] obtain resp where
      g: "http_Get e u = Inr resp" and
      l: "lookup (files w2) (resolve buffer) = Some (File (concat (chunks (Body resp))))"
      by (auto simp: tk w2_def)
    have nd: "\<not> dirlike buffer" unfolding buffer_def by (rule buffer_not_dirlike)
    from Open_file[OF l nd] g l show ?thesis by blast
  qed
  have "w2 = handleTask e task w1 \<and>
         chans w2 (nchans w) = [x] \<and>
         requests w2 = requests w @ [u] \<and>
         requests (w3\<lparr>files := os_RemoveAll tempdir (files w2)\<rparr>) = requests w @ [u] \<and>
         DownloadTemp e (serve e) u w =
           Some (case x of
                   Some err \<Rightarrow> Inl err
                 | None \<Rightarrow> os_Open e buffer (files w2),
                 w3\<lparr>files := os_RemoveAll tempdir (files w2)\<rparr>) \<and>
         (x = None \<longrightarrow>
            (\<exists>resp. http_Get e u = Inr resp \<and>
               lookup (files w2) (resolve buffer) =
                 Some (File (concat (chunks (Body resp)))) \<and>
               (fault e (SysOpen buffer) = None \<longrightarrow>
                  os_Open e buffer (files w2) =
                    Inr (File (concat (chunks (Body resp)))))))"
    using x rq dt ok by (simp add: w2_def w3_def)
  then show ?thesis
    unfolding task_def[symmetric] buffer_def[symmetric] w1_def[symmetric]
    by (intro exI[of _ x] exI[of _ w2] exI[of _ "w3\<lparr>files := os_RemoveAll tempdir (files w2)\<rparr>"])
qed

lemma DownloadTemp_serve_requests:
  assumes "DownloadTemp e (serve e) u w = Some (Inr f, w')"
  shows "requests w' = requests w @ [u]"
proof (cases "ioutil_TempDir e (os_TempDir e) ''aptly'' (files w)")
  case (Inl err)
  with assms show ?thesis by (simp add: DownloadTemp_def)
next
  case (Inr p)
  obtain tempdir fs1 where "p = (tempdir, fs1)" by (cases p)
  with Inr have "ioutil_TempDir e (os_TempDir e) ''aptly'' (files w) = Inr (tempdir, fs1)" by simp
  from DownloadTemp_serve[OF this, of u] assms show ?thesis by auto
qed

text \<open>Claim C8. When the temporary directory cannot be created, \<^verbatim>\<open>DownloadTemp\<close> returns
  that error and changes nothing. Otherwise the directory is fresh; whatever the
  downloader does, nothing is left at or below the directory when \<^verbatim>\<open>DownloadTemp\<close>
  returns; and with the engine as downloader exactly one request is made, for the file
  \<^verbatim>\<open>buffer\<close> in that directory, exactly one result arrives, an error result is
  returned as it is, and after a nil result the file is opened: it holds the bytes of the
  response body, and the handle is returned unless the open itself fails.\<close>

theorem DownloadTemp_protocol:
  "(\<forall>err. ioutil_TempDir e (os_TempDir e) ''aptly'' (files w) = Inl err \<longrightarrow>
      DownloadTemp e downloader u w = Some (Inl err, w)) \<and>
   (\<forall>tempdir fs1. ioutil_TempDir e (os_TempDir e) ''aptly'' (files w) = Inr (tempdir, fs1) \<longrightarrow>
      lookup (files w) (resolve tempdir) = None \<and>
      lookup fs1 (resolve tempdir) = Some Directory \<and>
      (\<forall>r w'. DownloadTemp e downloader u w = Some (r, w') \<longrightarrow>
         (\<forall>q. prefix (resolve tempdir) q \<longrightarrow> lookup (files w') q = None)) \<and>
      (\<exists>x w2 w'.
         w2 = handleTask e
                \<lparr>url = u, destination = filepath_Join tempdir ''buffer'', result = nchans w,
                   expected = \<lparr>Size = - 1, MD5 = [], SHA1 = [], SHA256 = []\<rparr>\<rparr>
                (snd (make_chan (w\<lparr>files := fs1\<rparr>))) \<and>
         chans w2 (nchans w) = [x] \<and>
         requests w2 = requests w @ [u] \<and>
         DownloadTemp e (serve e) u w =
           Some (case x of
                   Some err \<Rightarrow> Inl err
                 | None \<Rightarrow> os_Open e (filepath_Join tempdir ''buffer'') (files w2), w') \<and>
         (x = None \<longrightarrow>
            (\<exists>resp. http_Get e u = Inr resp \<and>
               lookup (files w2) (resolve (filepath_Join tempdir ''buffer'')) =
                 Some (File (concat (chunks (Body resp)))) \<and>
               (fault e (SysOpen (filepath_Join tempdir ''buffer'')) = None \<longrightarrow>
                  os_Open e (filepath_Join tempdir ''buffer'') (files w2) =
                    Inr (File (concat (chunks (Body resp)))))))))"
proof (intro conjI allI impI)
  fix err
  assume "ioutil_TempDir e (os_TempDir e) ''aptly'' (files w) = Inl err"
  then show "DownloadTemp e downloader u w = Some (Inl err, w)"
    by (simp add: DownloadTemp_def)
next
  fix tempdir fs1
  assume t: "ioutil_TempDir e (os_TempDir e) ''aptly'' (files w) = Inr (tempdir, fs1)"
  note fresh = tempdir_try_fresh[OF t[unfolded ioutil_TempDir_def]]
  from fresh show "lookup (files w) (resolve tempdir) = None" by simp
  from fresh show "lookup fs1 (resolve tempdir) = Some Directory" by simp
  from fresh have ne: "resolve tempdir \<noteq> []" by simp
  show "lookup (files w') q = None"
    if "DownloadTemp e downloader u w = Some (r, w')" "prefix (resolve tempdir) q" for r w' q
    using DownloadTemp_removes[OF t that(1)] that(2) by (auto simp: lookup_RemoveAll[OF ne])
  from DownloadTemp_serve[OF t, of u] obtain x w2 w' where
    "w2 = handleTask e
                \<lparr>url = u, destination = filepath_Join tempdir ''buffer'', result = nchans w,
                   expected = \<lparr>Size = - 1, MD5 = [], SHA1 = [], SHA256 = []\<rparr>\<rparr>
                (snd (make_chan (w\<lparr>files := fs1\<rparr>))) \<and>
         chans w2 (nchans w) = [x] \<and>
         requests w2 = requests w @ [u] \<and>
         DownloadTemp e (serve e) u w =
           Some (case x of
                   Some err \<Rightarrow> Inl err
                 | None \<Rightarrow> os_Open e (filepath_Join tempdir ''buffer'') (files w2), w') \<and>
         (x = None \<longrightarrow>
            (\<exists>resp. http_Get e u = Inr resp \<and>
               lookup (files w2) (resolve (filepath_Join tempdir ''buffer'')) =
                 Some (File (concat (chunks (Body resp)))) \<and>
               (fault e (SysOpen (filepath_Join tempdir ''buffer'')) = None \<longrightarrow>
                  os_Open e (filepath_Join tempdir ''buffer'') (files w2) =
                    Inr (File (concat (chunks (Body resp)))))))"
    by - (elim exE conjE, rule that, intro conjI)
  then show "\<exists>x w2 w'.
         w2 = handleTask e
                \<lparr>url = u, destination = filepath_Join tempdir ''buffer'', result = nchans w,
                   expected = \<lparr>Size = - 1, MD5 = [], SHA1 = [], SHA256 = []\<rparr>\<rparr>
                (snd (make_chan (w\<lparr>files := fs1\<rparr>))) \<and>
         chans w2 (nchans w) = [x] \<and>
         requests w2 = requests w @ [u] \<and>
         DownloadTemp e (serve e) u w =
           Some (case x of
                   Some err \<Rightarrow> Inl err
                 | None \<Rightarrow> os_Open e (filepath_Join tempdir ''buffer'') (files w2), w') \<and>
         (x = None \<longrightarrow>
            (\<exists>resp. http_Get e u = Inr resp \<and>
               lookup (files w2) (resolve (filepath_Join tempdir ''buffer'')) =
                 Some (File (concat (chunks (Body resp)))) \<and>
               (fault e (SysOpen (filepath_Join tempdir ''buffer'')) = None \<longrightarrow>
                  os_Open e (filepath_Join tempdir ''buffer'') (files w2) =
                    Inr (File (concat (chunks (Body resp)))))))"
    by (intro exI[of _ x] exI[of _ w2] exI[of _ w'])
qed

section \<open>Trying the compressed variants: properties\<close>

theorem DownloadTemp_protocol_witness:
  "ioutil_TempDir demo_env (os_TempDir demo_env) ''aptly'' (files demo_world) =
     Inr (''/tmp/aptly391827465'',
          [([''tmp''], Directory), ([''tmp'', ''aptly391827465''], Directory)]) \<and>
   lookup (files demo_world) [''tmp'', ''aptly391827465''] = None \<and>
   (\<exists>w'. DownloadTemp demo_env (serve demo_env) ''http://repo/Packages'' demo_world =
            Some (Inr (File [1, 2, 3]), w') \<and>
         lookup (files w') [''tmp'', ''aptly391827465''] = None \<and>
         lookup (files w') [''tmp'', ''aptly391827465'', ''buffer''] = None)"
proof -
  let ?fs1 = "[([''tmp''], Directory), ([''tmp'', ''aptly391827465''], Directory)]"
  have t: "ioutil_TempDir demo_env (os_TempDir demo_env) ''aptly'' (files demo_world) =
     Inr (''/tmp/aptly391827465'', ?fs1)" by code_simp
  have r: "resolve ''/tmp/aptly391827465'' = [''tmp'', ''aptly391827465'']" by code_simp
  have d: "DownloadTemp demo_env (serve demo_env) ''http://repo/Packages'' demo_world \<noteq> None"
    "fst (the (DownloadTemp demo_env (serve demo_env) ''http://repo/Packages'' demo_world)) =
       Inr (File [1, 2, 3])"
    by code_simp+
  then obtain w' where
    w': "DownloadTemp demo_env (serve demo_env) ''http://repo/Packages'' demo_world =
           Some (Inr (File [1, 2, 3]), w')"
    by (cases "DownloadTemp demo_env (serve demo_env) ''http://repo/Packages'' demo_world") auto
  from DownloadTemp_protocol[of demo_env demo_world "serve demo_env" "''http://repo/Packages''"] t
  have "lookup (files demo_world) (resolve ''/tmp/aptly391827465'') = None"
    and "\<forall>r w'. DownloadTemp demo_env (serve demo_env) ''http://repo/Packages'' demo_world =
            Some (r, w') \<longrightarrow>
         (\<forall>q. prefix (resolve ''/tmp/aptly391827465'') q \<longrightarrow> lookup (files w') q = None)"
    by blast+
  with w' have "lookup (files demo_world) [''tmp'', ''aptly391827465''] = None"
    "lookup (files w') [''tmp'', ''aptly391827465''] = None"
    "lookup (files w') [''tmp'', ''aptly391827465'', ''buffer''] = None"
    unfolding r by auto
  with t w' show ?thesis by blast
qed

lemma DTC_unfold:
  "DownloadTryCompression e dl u w =
     (case DownloadTemp e dl (u @ ''.bz2'') w of
        None \<Rightarrow> None
      | Some (Inl e1, w1) \<Rightarrow>
          try_methods e dl u [(''.gz'', \<lambda>e r. gzip_NewReader e r), ([], \<lambda>e r. Inr (FileReader r))]
            (Some e1) w1
      | Some (Inr f, w1) \<Rightarrow> Some ((Some (Bzip2Reader f), Some f, None), w1))"
  by (simp add: DownloadTryCompression_def compressionMethods_def
      split: option.splits sum.splits prod.splits)

lemma try_raw:
  "try_methods e dl u [([], \<lambda>e r. Inr (FileReader r))] err w =
     (case DownloadTemp e dl u w of
        None \<Rightarrow> None
      | Some (Inl e3, w3) \<Rightarrow> Some ((None, None, Some e3), w3)
      | Some (Inr f, w3) \<Rightarrow> Some ((Some (FileReader f), Some f, None), w3))"
  by (simp split: option.splits sum.splits prod.splits)

lemma try_gz:
  "try_methods e dl u [(''.gz'', \<lambda>e r. gzip_NewReader e r), ([], \<lambda>e r. Inr (FileReader r))] err w =
     (case DownloadTemp e dl (u @ ''.gz'') w of
        None \<Rightarrow> None
      | Some (Inl e2, w2) \<Rightarrow> try_methods e dl u [([], \<lambda>e r. Inr (FileReader r))] (Some e2) w2
      | Some (Inr f, w2) \<Rightarrow>
          (case gzip_NewReader e f of
             Inl e2 \<Rightarrow> try_methods e dl u [([], \<lambda>e r. Inr (FileReader r))] (Some e2) w2
           | Inr rd \<Rightarrow> Some ((Some rd, Some f, None), w2)))"
  by (simp split: option.splits sum.splits prod.splits del: try_methods.simps(2)
      add: try_methods.simps(2)[of _ _ _ "(''.gz'', \<lambda>e r. gzip_NewReader e r)"])

text \<open>Claim C7. \<^verbatim>\<open>DownloadTryCompression\<close> tries \<^verbatim>\<open>.bz2\<close>, then \<^verbatim>\<open>.gz\<close>, then the URL
  itself. When the \<^verbatim>\<open>.bz2\<close> download succeeds its bzip2 reader is returned and the world is
  the one that download left (with the engine: one request only). When it fails and the
  \<^verbatim>\<open>.gz\<close> download and the gzip header check succeed, the gzip reader is returned and
  nothing is requested after it. When \<^verbatim>\<open>.gz\<close> fails too (the download or the header
  check), the plain download decides: its file is returned as it is, or its error is the
  error returned.\<close>

theorem DownloadTryCompression_order:
  "(\<forall>f w1. DownloadTemp e dl (u @ ''.bz2'') w = Some (Inr f, w1) \<longrightarrow>
      DownloadTryCompression e dl u w = Some ((Some (Bzip2Reader f), Some f, None), w1)) \<and>
   (\<forall>e1 w1 f w2 rd.
      DownloadTemp e dl (u @ ''.bz2'') w = Some (Inl e1, w1) \<and>
      DownloadTemp e dl (u @ ''.gz'') w1 = Some (Inr f, w2) \<and> gzip_NewReader e f = Inr rd \<longrightarrow>
      DownloadTryCompression e dl u w = Some ((Some rd, Some f, None), w2) \<and> rd = GzipReader f) \<and>
   (\<forall>e1 w1 e2 w2 f w3.
      DownloadTemp e dl (u @ ''.bz2'') w = Some (Inl e1, w1) \<and>
      (DownloadTemp e dl (u @ ''.gz'') w1 = Some (Inl e2, w2) \<or>
       (\<exists>g. DownloadTemp e dl (u @ ''.gz'') w1 = Some (Inr g, w2) \<and> gzip_NewReader e g = Inl e2)) \<and>
      DownloadTemp e dl u w2 = Some (Inr f, w3) \<longrightarrow>
      DownloadTryCompression e dl u w = Some ((Some (FileReader f), Some f, None), w3)) \<and>
   (\<forall>e1 w1 e2 w2 e3 w3.
      DownloadTemp e dl (u @ ''.bz2'') w = Some (Inl e1, w1) \<and>
      (DownloadTemp e dl (u @ ''.gz'') w1 = Some (Inl e2, w2) \<or>
       (\<exists>g. DownloadTemp e dl (u @ ''.gz'') w1 = Some (Inr g, w2) \<and> gzip_NewReader e g = Inl e2)) \<and>
      DownloadTemp e dl u w2 = Some (Inl e3, w3) \<longrightarrow>
      DownloadTryCompression e dl u w = Some ((None, None, Some e3), w3)) \<and>
   (\<forall>f w1. DownloadTemp e (serve e) (u @ ''.bz2'') w = Some (Inr f, w1) \<longrightarrow>
      (\<exists>w'. DownloadTryCompression e (serve e) u w =
               Some ((Some (Bzip2Reader f), Some f, None), w') \<and>
            requests w' = requests w @ [u @ ''.bz2''])) \<and>
   (\<forall>e1 w1 f w2 rd.
      DownloadTemp e (serve e) (u @ ''.bz2'') w = Some (Inl e1, w1) \<and>
      DownloadTemp e (serve e) (u @ ''.gz'') w1 = Some (Inr f, w2) \<and>
      gzip_NewReader e f = Inr rd \<longrightarrow>
      (\<exists>w'. DownloadTryCompression e (serve e) u w = Some ((Some rd, Some f, None), w') \<and>
            requests w' = requests w1 @ [u @ ''.gz'']))"
proof (intro conjI allI impI; (elim conjE)?)
  fix f w1
  assume "DownloadTemp e dl (u @ ''.bz2'') w = Some (Inr f, w1)"
  then show "DownloadTryCompression e dl u w = Some ((Some (Bzip2Reader f), Some f, None), w1)"
    by (simp add: DTC_unfold)
next
  fix e1 w1 f w2 rd
  assume a: "DownloadTemp e dl (u @ ''.bz2'') w = Some (Inl e1, w1)"
    "DownloadTemp e dl (u @ ''.gz'') w1 = Some (Inr f, w2)" "gzip_NewReader e f = Inr rd"
  then show "DownloadTryCompression e dl u w = Some ((Some rd, Some f, None), w2)"
    by (simp add: DTC_unfold try_gz del: try_methods.simps)
  from a(3) show "rd = GzipReader f"
    by (auto simp: gzip_NewReader_def split: node.splits option.splits)
next
  fix e1 w1 e2 w2 f w3
  assume a: "DownloadTemp e dl (u @ ''.bz2'') w = Some (Inl e1, w1)"
    "DownloadTemp e dl (u @ ''.gz'') w1 = Some (Inl e2, w2) \<or>
       (\<exists>g. DownloadTemp e dl (u @ ''.gz'') w1 = Some (Inr g, w2) \<and> gzip_NewReader e g = Inl e2)"
    "DownloadTemp e dl u w2 = Some (Inr f, w3)"
  from a(2) have "try_methods e dl u
      [(''.gz'', \<lambda>e r. gzip_NewReader e r), ([], \<lambda>e r. Inr (FileReader r))] (Some e1) w1 =
      try_methods e dl u [([], \<lambda>e r. Inr (FileReader r))] (Some e2) w2"
    unfolding try_gz by auto
  with a(1,3) show "DownloadTryCompression e dl u w = Some ((Some (FileReader f), Some f, None), w3)"
    by (simp add: DTC_unfold try_raw del: try_methods.simps)
next
  fix e1 w1 e2 w2 e3 w3
  assume a: "DownloadTemp e dl (u @ ''.bz2'') w = Some (Inl e1, w1)"
    "DownloadTemp e dl (u @ ''.gz'') w1 = Some (Inl e2, w2) \<or>
       (\<exists>g. DownloadTemp e dl (u @ ''.gz'') w1 = Some (Inr g, w2) \<and> gzip_NewReader e g = Inl e2)"
    "DownloadTemp e dl u w2 = Some (Inl e3, w3)"
  from a(2) have "try_methods e dl u
      [(''.gz'', \<lambda>e r. gzip_NewReader e r), ([], \<lambda>e r. Inr (FileReader r))] (Some e1) w1 =
      try_methods e dl u [([], \<lambda>e r. Inr (FileReader r))] (Some e2) w2"
    unfolding try_gz by auto
  with a(1,3) show "DownloadTryCompression e dl u w = Some ((None, None, Some e3), w3)"
    by (simp add: DTC_unfold try_raw del: try_methods.simps)
next
  fix f w1
  assume a: "DownloadTemp e (serve e) (u @ ''.bz2'') w = Some (Inr f, w1)"
  then have "DownloadTryCompression e (serve e) u w = Some ((Some (Bzip2Reader f), Some f, None), w1)"
    by (simp add: DTC_unfold)
  with DownloadTemp_serve_requests[OF a]
  show "\<exists>w'. DownloadTryCompression e (serve e) u w =
               Some ((Some (Bzip2Reader f), Some f, None), w') \<and>
            requests w' = requests w @ [u @ ''.bz2'']"
    by blast
next
  fix e1 w1 f w2 rd
  assume a: "DownloadTemp e (serve e) (u @ ''.bz2'') w = Some (Inl e1, w1)"
    "DownloadTemp e (serve e) (u @ ''.gz'') w1 = Some (Inr f, w2)" "gzip_NewReader e f = Inr rd"
  then have "DownloadTryCompression e (serve e) u w = Some ((Some rd, Some f, None), w2)"
    by (simp add: DTC_unfold try_gz del: try_methods.simps)
  with DownloadTemp_serve_requests[OF a(2)]
  show "\<exists>w'. DownloadTryCompression e (serve e) u w = Some ((Some rd, Some f, None), w') \<and>
            requests w' = requests w1 @ [u @ ''.gz'']"
    by blast
qed

theorem DownloadTryCompression_order_witness:
  "\<exists>w'. DownloadTryCompression demo_env (serve demo_env) ''http://repo/Packages'' demo_world =
          Some ((Some (GzipReader (File [0x1F, 0x8B, 8])), Some (File [0x1F, 0x8B, 8]), None), w') \<and>
        requests w' = [''http://repo/Packages.bz2'', ''http://repo/Packages.gz'']"
proof -
  let ?u = "''http://repo/Packages''"
  define r1 where "r1 = DownloadTemp demo_env (serve demo_env) (?u @ ''.bz2'') demo_world"
  define w1 where "w1 = snd (the r1)"
  define r2 where "r2 = DownloadTemp demo_env (serve demo_env) (?u @ ''.gz'') w1"
  define w2 where "w2 = snd (the r2)"
  have "r1 \<noteq> None" "fst (the r1) = Inl (UrlError ''http://repo/Packages.bz2'' ''no such host'')"
    unfolding r1_def by code_simp+
  then have a1: "DownloadTemp demo_env (serve demo_env) (?u @ ''.bz2'') demo_world =
      Some (Inl (UrlError ''http://repo/Packages.bz2'' ''no such host''), w1)"
    unfolding w1_def by (cases r1) (auto simp: r1_def)
  have q1: "requests w1 = [''http://repo/Packages.bz2'']"
    unfolding w1_def r1_def by code_simp
  have "r2 \<noteq> None" "fst (the r2) = Inr (File [0x1F, 0x8B, 8])"
    unfolding r2_def w1_def r1_def by code_simp+
  then have a2: "DownloadTemp demo_env (serve demo_env) (?u @ ''.gz'') w1 =
      Some (Inr (File [0x1F, 0x8B, 8]), w2)"
    unfolding w2_def by (cases r2) (auto simp: r2_def)
  have g: "gzip_NewReader demo_env (File [0x1F, 0x8B, 8]) = Inr (GzipReader (File [0x1F, 0x8B, 8]))"
    by code_simp
  from DownloadTryCompression_order[of demo_env "serve demo_env" ?u demo_world] a1 a2 g
  have "\<exists>w'. DownloadTryCompression demo_env (serve demo_env) ?u demo_world =
          Some ((Some (GzipReader (File [0x1F, 0x8B, 8])), Some (File [0x1F, 0x8B, 8]), None), w') \<and>
        requests w' = requests w1 @ [?u @ ''.gz'']"
    by blast
  then show ?thesis by (simp add: q1)
qed

section \<open>Shutdown\<close>

lemma count_update:
  "k < length xs \<Longrightarrow>
   count_list (xs[k := b]) c + (if c = xs ! k then 1 else 0) =
   count_list xs c + (if c = b then 1 else 0)"
proof (induction xs arbitrary: k)
  case Nil
  then show ?case by simp
next
  case (Cons a xs)
  show ?case
  proof (cases k)
    case 0
    then show ?thesis by simp
  next
    case (Suc m)
    with Cons.prems have "m < length xs" by simp
    from Cons.IH[OF this] Suc show ?thesis by (auto split: if_splits)
  qed
qed

lemma count_same:
  "k < length xs \<Longrightarrow> c \<noteq> xs ! k \<Longrightarrow> c \<noteq> b \<Longrightarrow> count_list (xs[k := b]) c = count_list xs c"
  using count_update[of k xs b c] by simp

lemma count_gain:
  "k < length xs \<Longrightarrow> b \<noteq> xs ! k \<Longrightarrow> count_list (xs[k := b]) b = Suc (count_list xs b)"
  using count_update[of k xs b b] by simp

lemma count_loss:
  "k < length xs \<Longrightarrow> xs ! k \<noteq> b \<Longrightarrow> Suc (count_list (xs[k := b]) (xs ! k)) = count_list xs (xs ! k)"
  using count_update[of k xs b "xs ! k"] by simp

lemma count_all: "count_list xs a = length xs \<Longrightarrow> k < length xs \<Longrightarrow> xs ! k = a"
proof (induction xs arbitrary: k)
  case Nil
  then show ?case by simp
next
  case (Cons b xs)
  have le: "count_list xs a \<le> length xs" by (rule count_le_length)
  from Cons.prems(1) le have b: "b = a" by (auto split: if_splits)
  with Cons.prems(1) have "count_list xs a = length xs" by simp
  with Cons.IH Cons.prems(2) b show ?case by (cases k) auto
qed

lemma count_none: "count_list xs a = 0 \<Longrightarrow> k < length xs \<Longrightarrow> xs ! k \<noteq> a"
  by (metis count_list_0_iff nth_mem)

lemma pool_inv_init: "pool_inv (NewDownloader n w)"
  by (simp add: pool_inv_def NewDownloader_def count_list_0_iff)

lemma fire_threads: "fire e ev s = Some s' \<Longrightarrow> threads s' = threads s"
  by (cases ev)
     (auto simp: DownloadWithChecksum_def split: if_splits list.splits worker.splits caller.splits)

text \<open>A worker that moves between its \<^verbatim>\<open>select\<close>, a task and the paused state changes no
  count.\<close>

lemma pool_inv_move:
  assumes "pool_inv s" and "k < length (workers s)"
    and "workers s ! k \<noteq> Stopping" "workers s ! k \<noteq> Returned" "b \<noteq> Stopping" "b \<noteq> Returned"
    and "workers s' = (workers s)[k := b]" "shutdown s' = shutdown s" "threads s' = threads s"
  shows "pool_inv s'"
  using assms by (simp add: pool_inv_def count_same)

lemma pool_inv_fire:
  assumes "pool_inv s" and "fire e ev s = Some s'"
  shows "pool_inv s'"
proof (cases ev)
  case (Submit u dst res want)
  with assms(2) have "s' = s\<lparr>queue := queue s @ [\<lparr>url = u, destination = dst, result = res, expected = want\<rparr>]\<rparr>"
    by (auto simp: DownloadWithChecksum_def split: if_splits)
  with assms(1) show ?thesis by (simp add: pool_inv_def)
next
  case (Take k)
  with assms(2) obtain task rest where
    "k < length (workers s)" "workers s ! k = AtSelect"
    "s' = s\<lparr>queue := rest, workers := (workers s)[k := Handling task]\<rparr>"
    by (auto split: if_splits list.splits)
  then show ?thesis by (intro pool_inv_move[OF assms(1), of k "Handling task"]) simp_all
next
  case (Handled k)
  with assms(2) obtain task where
    "k < length (workers s)" "workers s ! k = Handling task"
    "s' = s\<lparr>workers := (workers s)[k := AtSelect], now := handleTask e task (now s)\<rparr>"
    by (auto split: if_splits worker.splits)
  then show ?thesis by (intro pool_inv_move[OF assms(1), of k AtSelect]) simp_all
next
  case (PauseAt k)
  with assms(2) have
    "k < length (workers s)" "workers s ! k = AtSelect"
    "s' = s\<lparr>workers := (workers s)[k := Paused]\<rparr>"
    by (auto split: if_splits)
  then show ?thesis by (intro pool_inv_move[OF assms(1), of k Paused]) simp_all
next
  case (UnpauseAt k)
  with assms(2) have
    "k < length (workers s)" "workers s ! k = Paused"
    "s' = s\<lparr>workers := (workers s)[k := AtSelect]\<rparr>"
    by (auto split: if_splits)
  then show ?thesis by (intro pool_inv_move[OF assms(1), of k AtSelect]) simp_all
next
  case Call
  with assms(2) have "shutdown s = NotCalled" "s' = s\<lparr>shutdown := SendingStop 0\<rparr>"
    by (auto split: if_splits)
  with assms(1) show ?thesis by (simp add: pool_inv_def)
next
  case (StopAt k)
  with assms(2) obtain i where
    i: "shutdown s = SendingStop i" "k < length (workers s)" "workers s ! k = AtSelect"
      "s' = s\<lparr>workers := (workers s)[k := Stopping], shutdown := SendingStop (Suc i)\<rparr>"
    by (auto split: caller.splits if_splits)
  from i(2,3) have "count_list ((workers s)[k := Stopping]) Stopping = Suc (count_list (workers s) Stopping)"
    "count_list ((workers s)[k := Stopping]) Returned = count_list (workers s) Returned"
    by (simp_all add: count_gain count_same)
  with assms(1) i show ?thesis by (simp add: pool_inv_def)
next
  case StopsSent
  from assms StopsSent obtain i where
    i: "shutdown s = SendingStop i" "\<not> int i < threads s" "s' = s\<lparr>shutdown := AwaitingStopped 0\<rparr>"
    by (auto split: caller.splits if_splits)
  from assms(1) i(1) have c: "length (workers s) = nat (threads s)"
    "count_list (workers s) Stopping = i" "count_list (workers s) Returned = 0"
    by (simp_all add: pool_inv_def)
  have "count_list (workers s) Stopping \<le> length (workers s)" by (rule count_le_length)
  with c i(2) have "count_list (workers s) Stopping = nat (threads s)" by linarith
  with c i(3) show ?thesis by (simp add: pool_inv_def)
next
  case (AckFrom k)
  from assms AckFrom obtain j where
    j: "shutdown s = AwaitingStopped j" "k < length (workers s)" "workers s ! k = Stopping"
      "s' = s\<lparr>workers := (workers s)[k := Returned], shutdown := AwaitingStopped (Suc j)\<rparr>"
    by (auto split: caller.splits if_splits)
  from j(2,3) have "count_list ((workers s)[k := Returned]) Returned = Suc (count_list (workers s) Returned)"
    "Suc (count_list ((workers s)[k := Returned]) Stopping) = count_list (workers s) Stopping"
    using count_gain[of k "workers s" Returned] count_loss[of k "workers s" Returned] by simp_all
  with assms(1) j show ?thesis by (auto simp: pool_inv_def)
next
  case Return
  from assms Return obtain j where
    j: "shutdown s = AwaitingStopped j" "\<not> int j < threads s" "s' = s\<lparr>shutdown := Finished\<rparr>"
    by (auto split: caller.splits if_splits)
  from assms(1) j(1) have c: "length (workers s) = nat (threads s)"
    "count_list (workers s) Returned = j" "count_list (workers s) Stopping + j = nat (threads s)"
    by (simp_all add: pool_inv_def)
  have "count_list (workers s) Returned \<le> length (workers s)" by (rule count_le_length)
  with c j(2) have "count_list (workers s) Returned = nat (threads s)"
    "count_list (workers s) Stopping = 0" by linarith+
  with c j(3) show ?thesis by (simp add: pool_inv_def)
qed

lemma pool_inv_run:
  "pool_inv s \<Longrightarrow> run e evs s = Some s' \<Longrightarrow> pool_inv s' \<and> threads s' = threads s"
proof (induction evs arbitrary: s)
  case Nil
  then show ?case by simp
next
  case (Cons ev evs)
  from Cons.prems(2) obtain s1 where
    f: "fire e ev s = Some s1" and r: "run e evs s1 = Some s'"
    by (auto split: option.splits)
  from Cons.IH[OF pool_inv_fire[OF Cons.prems(1) f] r] fire_threads[OF f] show ?case by simp
qed

lemma count_two_le: "a \<noteq> b \<Longrightarrow> count_list xs a + count_list xs b \<le> length xs"
  by (induction xs) auto

lemma count_two_all:
  "a \<noteq> b \<Longrightarrow> count_list xs a + count_list xs b = length xs \<Longrightarrow> k < length xs \<Longrightarrow>
   xs ! k = a \<or> xs ! k = b"
proof (induction xs arbitrary: k)
  case Nil
  then show ?case by simp
next
  case (Cons c xs)
  from count_two_le[OF Cons.prems(1), of xs] Cons.prems(1,2)
  have c: "c = a \<or> c = b" and r: "count_list xs a + count_list xs b = length xs"
    by (auto split: if_splits)
  show ?case
  proof (cases k)
    case 0
    with c show ?thesis by simp
  next
    case (Suc m)
    with Cons.prems(3) have "m < length xs" by simp
    from Cons.IH[OF Cons.prems(1) r this] Suc show ?thesis by simp
  qed
qed

lemma fire_in_flight:
  assumes "fire e ev s = Some s'" and "k < length (workers s)" and "workers s ! k = Handling task"
  shows "workers s' ! k = Handling task \<or>
         (ev = Handled k \<and> workers s' ! k = AtSelect \<and> now s' = handleTask e task (now s))"
  using assms
  by (cases ev)
     (auto simp: DownloadWithChecksum_def nth_list_update
       split: if_splits list.splits worker.splits caller.splits)

lemma fire_stop_at_select:
  assumes "fire e ev s = Some s'" and "k < length (workers s)"
    and "workers s' ! k = Stopping" and "workers s ! k \<noteq> Stopping"
  shows "ev = StopAt k \<and> workers s ! k = AtSelect"
  using assms
  by (cases ev)
     (auto simp: DownloadWithChecksum_def nth_list_update
       split: if_splits list.splits worker.splits caller.splits)

lemma fire_ack_after_stop:
  assumes "fire e ev s = Some s'" and "k < length (workers s)"
    and "workers s' ! k = Returned" and "workers s ! k \<noteq> Returned"
  shows "ev = AckFrom k \<and> workers s ! k = Stopping"
  using assms
  by (cases ev)
     (auto simp: DownloadWithChecksum_def nth_list_update
       split: if_splits list.splits worker.splits caller.splits)

lemma fire_stopping_stays:
  assumes "fire e ev s = Some s'" and "k < length (workers s)" and "workers s ! k = Stopping"
  shows "workers s' ! k = Stopping \<or> (ev = AckFrom k \<and> workers s' ! k = Returned)"
  using assms
  by (cases ev)
     (auto simp: DownloadWithChecksum_def nth_list_update
       split: if_splits list.splits worker.splits caller.splits)

lemma fire_returned_stays:
  assumes "fire e ev s = Some s'" and "k < length (workers s)" and "workers s ! k = Returned"
  shows "workers s' ! k = Returned"
  using assms
  by (cases ev)
     (auto simp: DownloadWithChecksum_def nth_list_update
       split: if_splits list.splits worker.splits caller.splits)

lemma fire_Shutdown_frame:
  assumes "fire e ev s = Some s'" and "of_Shutdown ev"
  shows "queue s' = queue s \<and> now s' = now s"
  using assms by (cases ev) (auto split: if_splits caller.splits)

text \<open>Claim C9. In every state the pool reaches from \<^verbatim>\<open>NewDownloader n\<close>: while
  \<^verbatim>\<open>Shutdown\<close> has sent \<open>i\<close> stop tokens, exactly \<open>i\<close> workers have taken one and none has
  returned; while it waits for acknowledgments every worker has taken its token, and the
  workers that have returned are the acknowledgments received; when \<^verbatim>\<open>Shutdown\<close> has
  returned, every worker has returned. In every step from such a state a worker inside
  \<^verbatim>\<open>handleTask\<close> stays there or finishes the task, delivering its result, and comes back to
  its \<^verbatim>\<open>select\<close>; a worker takes a stop token only at its \<^verbatim>\<open>select\<close>, acknowledges only
  after taking one, does nothing but acknowledge once it has taken one, and does nothing
  once it has returned (so no worker takes a second token); and the steps of \<^verbatim>\<open>Shutdown\<close>
  change neither the queue nor the world.\<close>

theorem Shutdown_protocol:
  assumes "run e evs (NewDownloader n w) = Some s"
  shows "length (workers s) = nat n \<and>
    (\<forall>i. shutdown s = SendingStop i \<longrightarrow>
       count_list (workers s) Stopping = i \<and> (\<forall>k<nat n. workers s ! k \<noteq> Returned)) \<and>
    (\<forall>j. shutdown s = AwaitingStopped j \<longrightarrow>
       count_list (workers s) Returned = j \<and>
       (\<forall>k<nat n. workers s ! k = Stopping \<or> workers s ! k = Returned)) \<and>
    (shutdown s = Finished \<longrightarrow> (\<forall>k<nat n. workers s ! k = Returned)) \<and>
    (\<forall>ev s'. fire e ev s = Some s' \<longrightarrow>
       (\<forall>k task. k < nat n \<and> workers s ! k = Handling task \<longrightarrow>
          workers s' ! k = Handling task \<or>
          (ev = Handled k \<and> workers s' ! k = AtSelect \<and> now s' = handleTask e task (now s))) \<and>
       (\<forall>k. k < nat n \<and> workers s' ! k = Stopping \<and> workers s ! k \<noteq> Stopping \<longrightarrow>
          ev = StopAt k \<and> workers s ! k = AtSelect) \<and>
       (\<forall>k. k < nat n \<and> workers s' ! k = Returned \<and> workers s ! k \<noteq> Returned \<longrightarrow>
          ev = AckFrom k \<and> workers s ! k = Stopping) \<and>
       (\<forall>k. k < nat n \<and> workers s ! k = Stopping \<longrightarrow>
          workers s' ! k = Stopping \<or> (ev = AckFrom k \<and> workers s' ! k = Returned)) \<and>
       (\<forall>k. k < nat n \<and> workers s ! k = Returned \<longrightarrow> workers s' ! k = Returned) \<and>
       (of_Shutdown ev \<longrightarrow> queue s' = queue s \<and> now s' = now s))"
proof -
  from pool_inv_run[OF pool_inv_init assms] have
    inv: "pool_inv s" and th: "threads s = n" by (simp_all add: NewDownloader_def)
  from inv th have len: "length (workers s) = nat n" by (simp add: pool_inv_def)
  from inv th have ok: "counts_ok (shutdown s) (count_list (workers s) Stopping)
      (count_list (workers s) Returned) (nat n)" by (simp add: pool_inv_def)
  have sending: "count_list (workers s) Stopping = i \<and> (\<forall>k<nat n. workers s ! k \<noteq> Returned)"
    if "shutdown s = SendingStop i" for i
    using ok that len count_none[of "workers s" Returned] by simp
  have awaiting: "count_list (workers s) Returned = j \<and>
       (\<forall>k<nat n. workers s ! k = Stopping \<or> workers s ! k = Returned)"
    if "shutdown s = AwaitingStopped j" for j
    using ok that len count_two_all[of Stopping Returned "workers s"] by simp
  have finished: "\<forall>k<nat n. workers s ! k = Returned" if "shutdown s = Finished"
    using ok that len count_all[of "workers s" Returned] by simp
  have steps: "(\<forall>k task. k < nat n \<and> workers s ! k = Handling task \<longrightarrow>
          workers s' ! k = Handling task \<or>
          (ev = Handled k \<and> workers s' ! k = AtSelect \<and> now s' = handleTask e task (now s))) \<and>
       (\<forall>k. k < nat n \<and> workers s' ! k = Stopping \<and> workers s ! k \<noteq> Stopping \<longrightarrow>
          ev = StopAt k \<and> workers s ! k = AtSelect) \<and>
       (\<forall>k. k < nat n \<and> workers s' ! k = Returned \<and> workers s ! k \<noteq> Returned \<longrightarrow>
          ev = AckFrom k \<and> workers s ! k = Stopping) \<and>
       (\<forall>k. k < nat n \<and> workers s ! k = Stopping \<longrightarrow>
          workers s' ! k = Stopping \<or> (ev = AckFrom k \<and> workers s' ! k = Returned)) \<and>
       (\<forall>k. k < nat n \<and> workers s ! k = Returned \<longrightarrow> workers s' ! k = Returned) \<and>
       (of_Shutdown ev \<longrightarrow> queue s' = queue s \<and> now s' = now s)"
    if f: "fire e ev s = Some s'" for ev s'
  proof -
    have 1: "\<forall>k task. k < nat n \<and> workers s ! k = Handling task \<longrightarrow>
          workers s' ! k = Handling task \<or>
          (ev = Handled k \<and> workers s' ! k = AtSelect \<and> now s' = handleTask e task (now s))"
      using fire_in_flight[OF f] len by auto
    have 2: "\<forall>k. k < nat n \<and> workers s' ! k = Stopping \<and> workers s ! k \<noteq> Stopping \<longrightarrow>
          ev = StopAt k \<and> workers s ! k = AtSelect"
      using fire_stop_at_select[OF f] len by auto
    have 3: "\<forall>k. k < nat n \<and> workers s' ! k = Returned \<and> workers s ! k \<noteq> Returned \<longrightarrow>
          ev = AckFrom k \<and> workers s ! k = Stopping"
      using fire_ack_after_stop[OF f] len by auto
    have 4: "of_Shutdown ev \<longrightarrow> queue s' = queue s \<and> now s' = now s"
      using fire_Shutdown_frame[OF f] by auto
    have 5: "\<forall>k. k < nat n \<and> workers s ! k = Stopping \<longrightarrow>
          workers s' ! k = Stopping \<or> (ev = AckFrom k \<and> workers s' ! k = Returned)"
      using fire_stopping_stays[OF f] len by auto
    have 6: "\<forall>k. k < nat n \<and> workers s ! k = Returned \<longrightarrow> workers s' ! k = Returned"
      using fire_returned_stays[OF f] len by auto
    from 1 2 3 5 6 4 show ?thesis by (intro conjI)
  qed
  from len sending awaiting finished steps show ?thesis by blast
qed

theorem Shutdown_protocol_witness:
  "\<exists>s. run demo_env
          [Submit ''http://repo/Packages'' ''pool/Packages'' 0
             \<lparr>Size = 3, MD5 = [], SHA1 = [], SHA256 = []\<rparr>,
           Submit ''http://repo/gone'' ''pool/gone'' 1
             \<lparr>Size = - 1, MD5 = [], SHA1 = [], SHA256 = []\<rparr>,
           Take 0, Call, StopAt 1, Handled 0, StopAt 0, StopsSent, AckFrom 0, AckFrom 1, Return]
          (NewDownloader 2 demo_world) = Some s \<and>
        shutdown s = Finished \<and> length (workers s) = 2 \<and>
        workers s ! 0 = Returned \<and> workers s ! 1 = Returned \<and>
        map url (queue s) = [''http://repo/gone''] \<and>
        chans (now s) 0 = [None]"
proof -
  define r where "r = run demo_env
          [Submit ''http://repo/Packages'' ''pool/Packages'' 0
             \<lparr>Size = 3, MD5 = [], SHA1 = [], SHA256 = []\<rparr>,
           Submit ''http://repo/gone'' ''pool/gone'' 1
             \<lparr>Size = - 1, MD5 = [], SHA1 = [], SHA256 = []\<rparr>,
           Take 0, Call, StopAt 1, Handled 0, StopAt 0, StopsSent, AckFrom 0, AckFrom 1, Return]
          (NewDownloader 2 demo_world)"
  have "r \<noteq> None" "shutdown (the r) = Finished" "map url (queue (the r)) = [''http://repo/gone'']"
    "chans (now (the r)) 0 = [None]"
    unfolding r_def by code_simp+
  then obtain s where s: "r = Some s" "shutdown s = Finished"
    "map url (queue s) = [''http://repo/gone'']" "chans (now s) 0 = [None]"
    by (cases r) auto
  note p = Shutdown_protocol[OF s(1)[unfolded r_def]]
  from p have "length (workers s) = nat 2" by (rule conjunct1)
  moreover from p s(2) have "\<forall>k<nat 2. workers s ! k = Returned" by simp
  ultimately have "length (workers s) = 2" "workers s ! 0 = Returned" "workers s ! 1 = Returned"
    by simp_all
  with s have "r = Some s \<and>
        shutdown s = Finished \<and> length (workers s) = 2 \<and>
        workers s ! 0 = Returned \<and> workers s ! 1 = Returned \<and>
        map url (queue s) = [''http://repo/gone''] \<and>
        chans (now s) 0 = [None]" by simp
  then show ?thesis unfolding r_def by (rule exI)
qed

section \<open>Two more properties of the protocol\<close>

text \<open>With verification requested, a copy that ends without error has written the same
  bytes, those of the response body in order, to the temporary file and to the checksum
  writer.\<close>

theorem fan_out_copy:
  assumes "Size (expected task) \<noteq> - 1" and "copied e task w = Some (fs3, cw)"
  shows "\<exists>resp. http_Get e (url task) = Inr resp \<and>
           cw = concat (chunks (Body resp)) \<and>
           lookup fs3 (resolve (destination task @ ''.down'')) =
             Some (File (concat (chunks (Body resp))))"
proof -
  from copied_D[OF assms(2)] obtain resp fs2 where
    r: "response_ok e task = Some resp" and c: "created e task w = Some fs2" and
    i: "io_Copy e (if Size (expected task) \<noteq> - 1
                then MultiWriter [OutFile (destination task @ ''.down''), Checksummer]
                else OutFile (destination task @ ''.down''))
       (chunks (Body resp)) (read_err (Body resp)) (fs2, NewChecksumWriter) = (None, (fs3, cw))"
    by blast
  from created_D[OF c] obtain fs1 where m: "made_dirs e task w = Some fs1" by blast
  have f: "lookup fs3 (resolve (destination task @ ''.down'')) =
             Some (File (concat (chunks (Body resp))))"
    using after_copy(4)[OF m c i] by simp
  from copied_tee[OF assms(2,1)] response_ok_D[OF r] f show ?thesis by auto
qed

theorem fan_out_copy_witness:
  "Size (expected (demo_task ''http://repo/Packages'' ''pool/main/Packages''
       \<lparr>Size = 3, MD5 = [], SHA1 = [], SHA256 = []\<rparr>)) \<noteq> - 1 \<and>
   copied demo_env (demo_task ''http://repo/Packages'' ''pool/main/Packages''
       \<lparr>Size = 3, MD5 = [], SHA1 = [], SHA256 = []\<rparr>) demo_world =
     Some ([([''tmp''], Directory), ([''pool''], Directory), ([''pool'', ''main''], Directory),
            ([''pool'', ''main'', ''Packages.down''], File [1, 2, 3])], [1, 2, 3]) \<and>
   (\<exists>resp. http_Get demo_env ''http://repo/Packages'' = Inr resp \<and>
      [1, 2, 3] = concat (chunks (Body resp)))"
proof -
  let ?t = "demo_task ''http://repo/Packages'' ''pool/main/Packages''
       \<lparr>Size = 3, MD5 = [], SHA1 = [], SHA256 = []\<rparr>"
  let ?fs = "[([''tmp''], Directory), ([''pool''], Directory), ([''pool'', ''main''], Directory),
            ([''pool'', ''main'', ''Packages.down''], File [1, 2, 3])]"
  have s: "Size (expected ?t) \<noteq> - 1" by (simp add: demo_task_def)
  have c: "copied demo_env ?t demo_world = Some (?fs, [1, 2, 3])" by code_simp
  from fan_out_copy[OF s c] have
    "\<exists>resp. http_Get demo_env ''http://repo/Packages'' = Inr resp \<and>
      [1, 2, 3] = concat (chunks (Body resp))"
    by (auto simp: demo_task_def)
  with s c show ?thesis by blast
qed

text \<open>Every run of \<^verbatim>\<open>handleTask\<close> issues exactly one request, for the task's URL, and
  prints exactly one line: nothing is retried.\<close>

theorem one_request_per_task:
  "requests (handleTask e task w) = requests w @ [url task] \<and>
   stdout (handleTask e task w) = stdout w @ [''Downloading '' @ url task @ ''...'' @ [CHR 0x0A]]"
  by (cases rule: task_cases[of e task w])
     (simp_all add: handleTask_def started_def Printf_def)

end
